theory Spec2Isabelle
  imports Complex_Main "HOL-Library.AList" "HOL-Library.Sublist"
begin

section \<open>Common conventions\<close>

text \<open>
  Python dictionaries keep insertion order and the code iterates over them, so a
  dictionary is an association list with distinct keys: \<open>map_of\<close> looks a key up,
  \<open>AList.update\<close> stores a value (in place when the key exists, at the end otherwise)
  and \<open>AList.delete\<close> removes a key. Numbers are real numbers and comparisons are
  exact. In the weight computation, whose result depends on rounding, every arithmetic
  result passes through an explicit rounding parameter; the other functions only
  compare, select and count, and are written with exact arithmetic.

  Every exception the code can raise is a value of \<open>py_error\<close>. \<open>FloatRange\<close> is not a
  Python exception: it marks a floating-point result outside the range of the normal
  doubles (an overflow to infinity, a NaN, an underflow), where the model stops and
  says nothing about the run.
\<close>

datatype py_error =
    AttributeError
  | KeyError
  | TypeError
  | ZeroDivisionError
  | JSONDecodeError
  | RecursionError
  | ValueError
  | FloatRange

text \<open>\<open>collections.deque(maxlen=n)\<close>: appending to a full deque discards the oldest item.\<close>

record 'a deque =
  maxlen :: nat
  items :: "'a list"

definition new_deque :: "nat \<Rightarrow> 'a deque" where
  "new_deque n = \<lparr>maxlen = n, items = []\<rparr>"

definition deque_append :: "'a \<Rightarrow> 'a deque \<Rightarrow> 'a deque" where
  "deque_append x d =
     (if maxlen d = 0 then d
      else if length (items d) < maxlen d then d\<lparr>items := items d @ [x]\<rparr>
      else d\<lparr>items := tl (items d) @ [x]\<rparr>)"

section \<open>Failover manager: per-tick health check\<close>

text \<open>
  \<open>_check_connection_health\<close> (failover_manager.py). \<open>_ping_check\<close> catches every
  exception and returns a boolean, so the probes of one health check are the list of
  their outcomes, one per entry of \<open>health_check_targets\<close> and in its order.
\<close>

fun count_successes :: "bool list \<Rightarrow> nat \<Rightarrow> nat" where
  "count_successes [] success_count = success_count"
| "count_successes (ok # rest) success_count =
     count_successes rest (if ok then success_count + 1 else success_count)"

definition check_connection_health :: "bool list \<Rightarrow> bool" where
  "check_connection_health probes =
     (count_successes probes 0 \<ge> length probes div 2 + 1)"

section \<open>Metrics collector\<close>

record performance_metrics =
  bandwidth_up :: real
  bandwidth_down :: real
  pm_latency :: real
  jitter :: real
  packet_loss :: real
  pm_timestamp :: real

definition PerformanceMetrics :: performance_metrics where
  "PerformanceMetrics =
     \<lparr>bandwidth_up = 0, bandwidth_down = 0, pm_latency = 0, jitter = 0,
      packet_loss = 0, pm_timestamp = 0\<rparr>"

record interface_metrics =
  im_interface :: string
  current :: performance_metrics
  history :: "performance_metrics deque"
  averages :: performance_metrics
  peaks :: performance_metrics

record metrics_collector =
  interfaces :: "(string \<times> interface_metrics) list"
  global_metrics :: "(string \<times> real) list"
  history_size :: nat

definition MetricsCollector :: metrics_collector where
  "MetricsCollector = \<lparr>interfaces = [], global_metrics = [], history_size = 100\<rparr>"

text \<open>\<open>statistics.mean(xs) if xs else 0\<close> and \<open>max(xs) if xs else 0\<close>.\<close>

definition mean_or_zero :: "real list \<Rightarrow> real" where
  "mean_or_zero xs = (if xs = [] then 0 else sum_list xs / real (length xs))"

definition max_or_zero :: "real list \<Rightarrow> real" where
  "max_or_zero xs = (case xs of [] \<Rightarrow> 0 | x # rest \<Rightarrow> foldl max x rest)"

definition update_averages_and_peaks ::
  "real \<Rightarrow> real \<Rightarrow> interface_metrics \<Rightarrow> interface_metrics" where
  "update_averages_and_peaks now_averages now_peaks iface_metrics =
     (if items (history iface_metrics) = [] then iface_metrics
      else
        let bandwidths = map bandwidth_up (items (history iface_metrics));
            latencies = map pm_latency (items (history iface_metrics));
            jitters = map jitter (items (history iface_metrics));
            losses = map packet_loss (items (history iface_metrics))
        in iface_metrics
             \<lparr>averages :=
                \<lparr>bandwidth_up = mean_or_zero bandwidths,
                 bandwidth_down = mean_or_zero bandwidths,
                 pm_latency = mean_or_zero latencies,
                 jitter = mean_or_zero jitters,
                 packet_loss = mean_or_zero losses,
                 pm_timestamp = now_averages\<rparr>,
              peaks :=
                \<lparr>bandwidth_up = max_or_zero bandwidths,
                 bandwidth_down = max_or_zero bandwidths,
                 pm_latency = max_or_zero latencies,
                 jitter = max_or_zero jitters,
                 packet_loss = max_or_zero losses,
                 pm_timestamp = now_peaks\<rparr>\<rparr>)"

text \<open>
  \<open>collect_interface_metrics\<close>: the four measurements are inputs, and so are the three
  readings of \<open>time.time()\<close>: for the sample, for the averages and for the peaks.
  The measuring helpers return a number on every path, so the body raises nothing.
\<close>

definition collect_interface_metrics ::
  "string \<Rightarrow> real \<Rightarrow> real \<Rightarrow> real \<Rightarrow> real \<Rightarrow> real \<Rightarrow> real \<Rightarrow> real
     \<Rightarrow> metrics_collector \<Rightarrow> metrics_collector" where
  "collect_interface_metrics interface bandwidth latency jit loss now now_averages now_peaks c =
     (let current_metrics =
            \<lparr>bandwidth_up = bandwidth, bandwidth_down = bandwidth, pm_latency = latency,
             jitter = jit, packet_loss = loss, pm_timestamp = now\<rparr>;
          ifaces =
            (case map_of (interfaces c) interface of
               None \<Rightarrow>
                 AList.update interface
                   \<lparr>im_interface = interface, current = current_metrics,
                    history = new_deque (history_size c),
                    averages = PerformanceMetrics, peaks = PerformanceMetrics\<rparr>
                   (interfaces c)
             | Some _ \<Rightarrow> interfaces c)
      in case map_of ifaces interface of
           None \<Rightarrow> c
         | Some iface_metrics \<Rightarrow>
             c\<lparr>interfaces :=
                 AList.update interface
                   (update_averages_and_peaks now_averages now_peaks
                      (iface_metrics
                         \<lparr>history := deque_append current_metrics (history iface_metrics),
                          current := current_metrics\<rparr>))
                   ifaces\<rparr>)"

text \<open>
  Attribute access on a \<open>PerformanceMetrics\<close> dataclass instance: the six declared
  fields exist, any other name raises \<open>AttributeError\<close>.
\<close>

definition pm_getattr :: "performance_metrics \<Rightarrow> string \<Rightarrow> py_error + real" where
  "pm_getattr m name =
     (if name = ''bandwidth_up'' then Inr (bandwidth_up m)
      else if name = ''bandwidth_down'' then Inr (bandwidth_down m)
      else if name = ''latency'' then Inr (pm_latency m)
      else if name = ''jitter'' then Inr (jitter m)
      else if name = ''packet_loss'' then Inr (packet_loss m)
      else if name = ''timestamp'' then Inr (pm_timestamp m)
      else Inl AttributeError)"

text \<open>
  A dictionary display \<open>{key: m.attr, ...}\<close> evaluates its entries in order; the first
  failing attribute access aborts it.
\<close>

fun attr_block :: "performance_metrics \<Rightarrow> (string \<times> string) list \<Rightarrow> py_error + (string \<times> real) list" where
  "attr_block m [] = Inr []"
| "attr_block m ((key, attr) # rest) =
     (case pm_getattr m attr of
        Inl e \<Rightarrow> Inl e
      | Inr v \<Rightarrow> (case attr_block m rest of Inl e \<Rightarrow> Inl e | Inr kvs \<Rightarrow> Inr ((key, v) # kvs)))"

definition interface_report ::
  "interface_metrics \<Rightarrow> py_error + (string \<times> (string \<times> real) list) list" where
  "interface_report metrics =
     (case attr_block (current metrics)
             [(''bandwidth_up'', ''bandwidth_up''), (''bandwidth_down'', ''bandwidth_down''),
              (''latency'', ''latency''), (''jitter'', ''jitter''),
              (''packet_loss'', ''packet_loss'')] of
        Inl e \<Rightarrow> Inl e
      | Inr cur \<Rightarrow>
     (case attr_block (averages metrics)
             [(''bandwidth_up'', ''bandwidth_up''), (''bandwidth_down'', ''bandwidth_down''),
              (''latency'', ''latency''), (''jitter'', ''jitter''),
              (''packet_loss'', ''packet_loss'')] of
        Inl e \<Rightarrow> Inl e
      | Inr avg \<Rightarrow>
     (case attr_block (peaks metrics)
             [(''bandwidth_up'', ''bandwidth_up''), (''bandwidth_down'', ''bandwidth_down''),
              (''latency'', ''latency''), (''jitter'', ''jitter''),
              (''packet_loss'', ''peaks'')] of
        Inl e \<Rightarrow> Inl e
      | Inr pk \<Rightarrow> Inr [(''current'', cur), (''averages'', avg), (''peaks'', pk)])))"

fun report_interfaces ::
  "(string \<times> interface_metrics) list \<Rightarrow> (string \<times> (string \<times> (string \<times> real) list) list) list
     \<Rightarrow> py_error + (string \<times> (string \<times> (string \<times> real) list) list) list" where
  "report_interfaces [] acc = Inr acc"
| "report_interfaces ((iface, metrics) # rest) acc =
     (case interface_report metrics of
        Inl e \<Rightarrow> Inl e
      | Inr block \<Rightarrow> report_interfaces rest (AList.update iface block acc))"

text \<open>The recommendation texts embed formatted numbers; the model keeps rule and operands.\<close>

datatype recommendation =
    HighLatency string real
  | HighPacketLoss string real
  | LimitedMeshSize
  | HighAverageLatency real

definition dict_get :: "(string \<times> 'v) list \<Rightarrow> string \<Rightarrow> 'v \<Rightarrow> 'v" where
  "dict_get d k dflt = (case map_of d k of None \<Rightarrow> dflt | Some v \<Rightarrow> v)"

definition generate_recommendations :: "metrics_collector \<Rightarrow> recommendation list" where
  "generate_recommendations c =
     concat (map (\<lambda>(iface, metrics).
                (if pm_latency (current metrics) > 100
                 then [HighLatency iface (pm_latency (current metrics))] else []) @
                (if packet_loss (current metrics) > 5
                 then [HighPacketLoss iface (packet_loss (current metrics))] else []))
             (interfaces c)) @
     (if dict_get (global_metrics c) ''total_nodes'' 0 < 2 then [LimitedMeshSize] else []) @
     (let avg_latency = dict_get (global_metrics c) ''average_latency'' 0
      in if avg_latency > 50 then [HighAverageLatency avg_latency] else [])"

record performance_report =
  rp_timestamp :: real
  rp_global_metrics :: "(string \<times> real) list"
  rp_interface_metrics :: "(string \<times> (string \<times> (string \<times> real) list) list) list"
  rp_recommendations :: "recommendation list"

definition get_performance_report :: "real \<Rightarrow> metrics_collector \<Rightarrow> py_error + performance_report" where
  "get_performance_report now c =
     (case report_interfaces (interfaces c) [] of
        Inl e \<Rightarrow> Inl e
      | Inr blocks \<Rightarrow>
          Inr \<lparr>rp_timestamp = now, rp_global_metrics = global_metrics c,
               rp_interface_metrics = blocks,
               rp_recommendations = generate_recommendations c\<rparr>)"

section \<open>Node discovery\<close>

text \<open>
  Decoded JSON values. \<open>json.dumps\<close> followed by \<open>json.loads\<close> gives back the value
  it was given when that value is built from strings, floats, lists and dictionaries
  with string keys, so a datagram on the wire is identified with the JSON value it
  carries. JSON \<open>null\<close> and Python's \<open>None\<close> are the same value \<open>JNull\<close>.
\<close>

datatype json =
    JNull
  | JBool bool
  | JNum real
  | JStr string
  | JList "json list"
  | JObj "(string \<times> json) list"

record mesh_node =
  node_id :: string
  ip_address :: string
  connections :: "string list"
  bandwidth :: "(string \<times> real) list"
  latency :: "(string \<times> real) list"
  last_seen :: real
  data_caps :: "(string \<times> real) list"

definition mesh_group :: string where
  "mesh_group = ''MESH_NETWORK_GROUP''"

definition required_fields :: "string list" where
  "required_fields = [''node_id'', ''ip_address'', ''connections'', ''bandwidth'', ''latency'']"

text \<open>\<open>field in node_data\<close>, for whatever \<open>json.loads\<close> returned.\<close>

fun py_contains :: "json \<Rightarrow> string \<Rightarrow> py_error + bool" where
  "py_contains (JObj kvs) field = Inr (map_of kvs field \<noteq> None)"
| "py_contains (JList xs) field = Inr (JStr field \<in> set xs)"
| "py_contains (JStr s) field = Inr (sublist field s)"
| "py_contains JNull field = Inl TypeError"
| "py_contains (JBool b) field = Inl TypeError"
| "py_contains (JNum x) field = Inl TypeError"

text \<open>\<open>all(field in node_data for field in fields)\<close> stops at the first miss.\<close>

fun all_fields_in :: "json \<Rightarrow> string list \<Rightarrow> py_error + bool" where
  "all_fields_in node_data [] = Inr True"
| "all_fields_in node_data (field # rest) =
     (case py_contains node_data field of
        Inl e \<Rightarrow> Inl e
      | Inr present \<Rightarrow> if present then all_fields_in node_data rest else Inr False)"

text \<open>\<open>node_data.get(key)\<close>: only a dictionary has the method.\<close>

fun py_get :: "json \<Rightarrow> string \<Rightarrow> py_error + json" where
  "py_get (JObj kvs) key = Inr (case map_of kvs key of None \<Rightarrow> JNull | Some v \<Rightarrow> v)"
| "py_get other key = Inl AttributeError"

text \<open>\<open>node_data[key]\<close> with a string key.\<close>

fun py_subscript :: "json \<Rightarrow> string \<Rightarrow> py_error + json" where
  "py_subscript (JObj kvs) key = (case map_of kvs key of None \<Rightarrow> Inl KeyError | Some v \<Rightarrow> Inr v)"
| "py_subscript other key = Inl TypeError"

text \<open>\<open>value == self.node_id\<close>, where \<open>self.node_id\<close> is a string or still \<open>None\<close>.\<close>

definition eq_node_id :: "json \<Rightarrow> string option \<Rightarrow> bool" where
  "eq_node_id v self_node_id =
     (case self_node_id of None \<Rightarrow> v = JNull | Some n \<Rightarrow> v = JStr n)"

fun is_str :: "json \<Rightarrow> bool" where
  "is_str (JStr s) = True"
| "is_str other = False"

fun is_list :: "json \<Rightarrow> bool" where
  "is_list (JList xs) = True"
| "is_list other = False"

fun is_dict :: "json \<Rightarrow> bool" where
  "is_dict (JObj kvs) = True"
| "is_dict other = False"

text \<open>
  The block of \<open>assert isinstance(node_data[field], T)\<close>: a failed assertion and a
  \<open>TypeError\<close> are caught and give \<open>False\<close>; any other exception leaves the function.
\<close>

fun check_types :: "json \<Rightarrow> (string \<times> (json \<Rightarrow> bool)) list \<Rightarrow> py_error + bool" where
  "check_types node_data [] = Inr True"
| "check_types node_data ((field, is_type) # rest) =
     (case py_subscript node_data field of
        Inl e \<Rightarrow> if e = TypeError then Inr False else Inl e
      | Inr v \<Rightarrow> if is_type v then check_types node_data rest else Inr False)"

definition validate_node_data :: "string option \<Rightarrow> json \<Rightarrow> py_error + bool" where
  "validate_node_data self_node_id node_data =
     (case all_fields_in node_data required_fields of
        Inl e \<Rightarrow> Inl e
      | Inr present \<Rightarrow>
          if \<not> present then Inr False
          else (case py_get node_data ''node_id'' of
                  Inl e \<Rightarrow> Inl e
                | Inr v \<Rightarrow>
                    if eq_node_id v self_node_id then Inr False
                    else check_types node_data
                           [(''node_id'', is_str), (''ip_address'', is_str),
                            (''connections'', is_list), (''bandwidth'', is_dict),
                            (''latency'', is_dict)]))"

text \<open>
  \<open>discover_nodes\<close>. The argument is what \<open>_listen_for_discovery_responses\<close> returned
  (or the exception of the broadcast or of the listening), each received text with the
  outcome of \<open>json.loads\<close> on it: the decoded value or the exception raised. A
  \<open>JSONDecodeError\<close> is logged and the text skipped; any other exception, of the
  decoder or of the validation, ends the pass with the records collected so far.
\<close>

fun parse_responses ::
  "string option \<Rightarrow> (py_error + json) list \<Rightarrow> json list \<Rightarrow> json list" where
  "parse_responses self_node_id [] discovered_nodes = discovered_nodes"
| "parse_responses self_node_id (response # rest) discovered_nodes =
     (case response of
        Inl e \<Rightarrow>
          if e = JSONDecodeError then parse_responses self_node_id rest discovered_nodes
          else discovered_nodes
      | Inr node_data \<Rightarrow>
          (case validate_node_data self_node_id node_data of
             Inl e \<Rightarrow> discovered_nodes
           | Inr ok \<Rightarrow>
               parse_responses self_node_id rest
                 (if ok then discovered_nodes @ [node_data] else discovered_nodes)))"

definition discover_nodes ::
  "string option \<Rightarrow> py_error + (py_error + json) list \<Rightarrow> json list" where
  "discover_nodes self_node_id listened =
     (case listened of
        Inl e \<Rightarrow> []
      | Inr responses \<Rightarrow> parse_responses self_node_id responses [])"

text \<open>\<open>advertise_node\<close> and \<open>_send_advertisement\<close>; the two clock readings are inputs.\<close>

definition float_dict :: "(string \<times> real) list \<Rightarrow> json" where
  "float_dict d = JObj (map (\<lambda>(k, v). (k, JNum v)) d)"

definition advertisement_data :: "mesh_node \<Rightarrow> real \<Rightarrow> json" where
  "advertisement_data node t =
     JObj [(''node_id'', JStr (node_id node)),
           (''ip_address'', JStr (ip_address node)),
           (''connections'', JList (map JStr (connections node))),
           (''bandwidth'', float_dict (bandwidth node)),
           (''latency'', float_dict (latency node)),
           (''data_caps'', float_dict (data_caps node)),
           (''timestamp'', JNum t)]"

definition send_advertisement :: "json \<Rightarrow> real \<Rightarrow> json" where
  "send_advertisement node_data t =
     JObj [(''type'', JStr ''NODE_ADVERTISEMENT''),
           (''node_data'', node_data),
           (''group'', JStr mesh_group),
           (''timestamp'', JNum t)]"

definition advertise_node :: "mesh_node \<Rightarrow> real \<Rightarrow> real \<Rightarrow> json" where
  "advertise_node node t1 t2 = send_advertisement (advertisement_data node t1) t2"

text \<open>
  The admissibility rule as the validator implements it on a decoded object: the five
  required fields are present with the types string, string, list, mapping, mapping and
  the node id is not the receiver's own.
\<close>

definition admissible :: "string option \<Rightarrow> (string \<times> json) list \<Rightarrow> bool" where
  "admissible self_node_id kvs =
     ((case map_of kvs ''node_id'' of
         None \<Rightarrow> False
       | Some v \<Rightarrow> is_str v \<and> \<not> eq_node_id v self_node_id) \<and>
      (case map_of kvs ''ip_address'' of None \<Rightarrow> False | Some v \<Rightarrow> is_str v) \<and>
      (case map_of kvs ''connections'' of None \<Rightarrow> False | Some v \<Rightarrow> is_list v) \<and>
      (case map_of kvs ''bandwidth'' of None \<Rightarrow> False | Some v \<Rightarrow> is_dict v) \<and>
      (case map_of kvs ''latency'' of None \<Rightarrow> False | Some v \<Rightarrow> is_dict v))"

text \<open>
  A datagram with its \<open>group\<close> entry set to a value or removed; a datagram that is
  no object has no entries and stays as it is. \<open>regroup f\<close> does this to a
  datagram as \<open>f\<close> says for it.
\<close>

fun with_group :: "json option \<Rightarrow> json \<Rightarrow> json" where
  "with_group None (JObj kvs) = JObj (AList.delete ''group'' kvs)"
| "with_group (Some g) (JObj kvs) = JObj (AList.update ''group'' g kvs)"
| "with_group g other = other"

definition regroup :: "(json \<Rightarrow> json option) \<Rightarrow> json \<Rightarrow> json" where
  "regroup f d = with_group (f d) d"

text \<open>Two records that would be valid peers: one of another group, one without a group.\<close>

definition foreign_datagram :: json where
  "foreign_datagram =
     JObj [(''node_id'', JStr ''peer-001''), (''ip_address'', JStr ''192.168.1.101''),
           (''connections'', JList [JStr ''eth0'']),
           (''bandwidth'', JObj [(''eth0'', JNum 100)]),
           (''latency'', JObj [(''eth0'', JNum 10)]),
           (''group'', JStr ''OTHER_GROUP'')]"

definition groupless_datagram :: json where
  "groupless_datagram =
     JObj [(''node_id'', JStr ''peer-002''), (''ip_address'', JStr ''192.168.1.102''),
           (''connections'', JList []), (''bandwidth'', JObj []), (''latency'', JObj [])]"

section \<open>Link aggregator\<close>

text \<open>
  The per-interface dictionary of \<open>active_connections\<close> has a fixed set of keys, so it
  is a record. Payloads are byte strings.
\<close>

record conn_info =
  ci_bandwidth :: real
  ci_latency :: real
  ci_data_cap :: real
  ci_active :: bool
  ci_packet_count :: nat
  ci_bytes_sent :: nat

type_synonym bytes = "char list"

record link_aggregator =
  aggregation_mode :: string
  active_connections :: "(string \<times> conn_info) list"
  connection_weights :: "(string \<times> real) list"
  packet_queues :: "(string \<times> bytes deque) list"
  performance_history :: "(string \<times> (real \<times> real) list) list"
  running :: bool
  max_queue_size :: nat
  rebalance_interval :: nat
  performance_window :: nat

definition LinkAggregator :: link_aggregator where
  "LinkAggregator =
     \<lparr>aggregation_mode = ''load_balance'', active_connections = [], connection_weights = [],
      packet_queues = [], performance_history = [], running = False,
      max_queue_size = 1000, rebalance_interval = 30, performance_window = 10\<rparr>"

text \<open>
  Floating-point arithmetic in the weight computation. Each division, product and sum
  of the code yields the double nearest to the exact result. The rounding is the
  parameter \<open>fl\<close>: \<open>fl x\<close> is the double stored for the exact result \<open>x\<close>, or
  \<open>None\<close> when the result is outside the range of the normal doubles, where the model
  stops with \<open>FloatRange\<close>. \<open>rounds fl\<close> is what IEEE 754 guarantees of a
  result in that range: a relative error of at most \<open>1 / 2 ^ 53\<close>. Exact arithmetic,
  \<open>exact\<close>, is one such \<open>fl\<close>, used for the fixtures. The literal \<open>0.1\<close> is the
  double \<open>tenth\<close>.
\<close>

definition unit_roundoff :: real where
  "unit_roundoff = 1 / 2 ^ 53"

definition rounds :: "(real \<Rightarrow> real option) \<Rightarrow> bool" where
  "rounds fl = (\<forall>x y. fl x = Some y \<longrightarrow> \<bar>y - x\<bar> \<le> unit_roundoff * \<bar>x\<bar>)"

definition exact :: "real \<Rightarrow> real option" where
  "exact x = Some x"

text \<open>
  The arithmetic of the machine itself, IEEE 754 binary64 with rounding to nearest, ties
  to even, on the range of the normal doubles: a non-zero result \<open>x\<close> with
  \<open>2 powi e \<le> \<bar>x\<bar> < 2 powi (e + 1)\<close> is rounded to the nearest multiple of
  \<open>2 powi (e - 52)\<close>. Below \<open>2 powi (- 1022)\<close> a result is subnormal or zero, and from
  \<open>2 ^ 1024 - 2 ^ 970\<close> on it rounds to infinity; there \<open>binary64\<close> is \<open>None\<close>.
\<close>

definition round_half_even :: "real \<Rightarrow> int" where
  "round_half_even z =
     (if z - of_int \<lfloor>z\<rfloor> < 1 / 2 then \<lfloor>z\<rfloor>
      else if 1 / 2 < z - of_int \<lfloor>z\<rfloor> then \<lfloor>z\<rfloor> + 1
      else if even \<lfloor>z\<rfloor> then \<lfloor>z\<rfloor> else \<lfloor>z\<rfloor> + 1)"

definition binary64 :: "real \<Rightarrow> real option" where
  "binary64 x =
     (if x = 0 then Some 0
      else if \<bar>x\<bar> < 2 powi (- 1022) \<or> 2 ^ 1024 - 2 ^ 970 \<le> \<bar>x\<bar> then None
      else Some (of_int (round_half_even (x / 2 powi (\<lfloor>log 2 \<bar>x\<bar>\<rfloor> - 52)))
                 * 2 powi (\<lfloor>log 2 \<bar>x\<bar>\<rfloor> - 52)))"

definition tenth :: real where
  "tenth = 3602879701896397 / 36028797018963968"

text \<open>
  \<open>_calculate_weights\<close>. Dividing by a latency of zero raises \<open>ZeroDivisionError\<close>; the
  new weight map is stored only when both loops have completed.
\<close>

fun weights_loop ::
  "(real \<Rightarrow> real option) \<Rightarrow> (string \<times> conn_info) list \<Rightarrow> real \<Rightarrow> (string \<times> real) list
     \<Rightarrow> py_error + real \<times> (string \<times> real) list" where
  "weights_loop fl [] total_weight weights = Inr (total_weight, weights)"
| "weights_loop fl ((interface, conn_info) # rest) total_weight weights =
     (if \<not> ci_active conn_info
      then weights_loop fl rest total_weight (AList.update interface 0 weights)
      else if ci_bandwidth conn_info \<le> 0 \<or> ci_latency conn_info \<ge> 1000
      then weights_loop fl rest total_weight (AList.update interface 0 weights)
      else
        case fl (ci_bandwidth conn_info / 100) of
          None \<Rightarrow> Inl FloatRange
        | Some bandwidth_weight \<Rightarrow>
            if ci_latency conn_info = 0 then Inl ZeroDivisionError
            else
              case fl (100 / ci_latency conn_info) of
                None \<Rightarrow> Inl FloatRange
              | Some inverse_latency \<Rightarrow>
                  case fl (bandwidth_weight * max tenth inverse_latency) of
                    None \<Rightarrow> Inl FloatRange
                  | Some weight \<Rightarrow>
                      case fl (total_weight + weight) of
                        None \<Rightarrow> Inl FloatRange
                      | Some total_weight' \<Rightarrow>
                          weights_loop fl rest total_weight'
                            (AList.update interface weight weights))"

text \<open>The normalisation loop: \<open>weights[interface] /= total_weight\<close> for every entry.\<close>

fun normalise_weights ::
  "(real \<Rightarrow> real option) \<Rightarrow> real \<Rightarrow> (string \<times> real) list
     \<Rightarrow> py_error + (string \<times> real) list" where
  "normalise_weights fl total_weight [] = Inr []"
| "normalise_weights fl total_weight ((interface, w) # rest) =
     (case fl (w / total_weight) of
        None \<Rightarrow> Inl FloatRange
      | Some v \<Rightarrow>
          (case normalise_weights fl total_weight rest of
             Inl e \<Rightarrow> Inl e
           | Inr rest' \<Rightarrow> Inr ((interface, v) # rest')))"

definition calculate_weights ::
  "(real \<Rightarrow> real option) \<Rightarrow> link_aggregator \<Rightarrow> py_error + link_aggregator" where
  "calculate_weights fl s =
     (case weights_loop fl (active_connections s) 0 [] of
        Inl e \<Rightarrow> Inl e
      | Inr (total_weight, weights) \<Rightarrow>
          if total_weight > 0
          then (case normalise_weights fl total_weight weights of
                  Inl e \<Rightarrow> Inl e
                | Inr normalised \<Rightarrow> Inr (s\<lparr>connection_weights := normalised\<rparr>))
          else Inr (s\<lparr>connection_weights := weights\<rparr>))"

text \<open>\<open>initialize\<close>: one entry, one queue and one history per listed interface.\<close>

definition init_connection :: "mesh_node \<Rightarrow> string \<Rightarrow> link_aggregator \<Rightarrow> link_aggregator" where
  "init_connection local_node interface s =
     s\<lparr>active_connections :=
         AList.update interface
           \<lparr>ci_bandwidth = dict_get (bandwidth local_node) interface 0,
            ci_latency = dict_get (latency local_node) interface 0,
            ci_data_cap = dict_get (data_caps local_node) interface 0,
            ci_active = True, ci_packet_count = 0, ci_bytes_sent = 0\<rparr>
           (active_connections s),
       packet_queues := AList.update interface (new_deque (max_queue_size s)) (packet_queues s),
       performance_history := AList.update interface [] (performance_history s)\<rparr>"

definition initialize ::
  "(real \<Rightarrow> real option) \<Rightarrow> mesh_node \<Rightarrow> link_aggregator \<Rightarrow> py_error + link_aggregator" where
  "initialize fl local_node s =
     (case calculate_weights fl (fold (init_connection local_node) (connections local_node) s) of
        Inl e \<Rightarrow> Inl e
      | Inr s' \<Rightarrow> Inr (s'\<lparr>running := True\<rparr>))"

definition update_connection :: "mesh_node \<Rightarrow> string \<Rightarrow> link_aggregator \<Rightarrow> link_aggregator" where
  "update_connection local_node interface s =
     (case map_of (active_connections s) interface of
        None \<Rightarrow> s
      | Some info \<Rightarrow>
          s\<lparr>active_connections :=
              AList.update interface
                (info\<lparr>ci_bandwidth := dict_get (bandwidth local_node) interface 0,
                      ci_latency := dict_get (latency local_node) interface 0,
                      ci_data_cap := dict_get (data_caps local_node) interface 0\<rparr>)
                (active_connections s)\<rparr>)"

definition update_connection_status :: "mesh_node \<Rightarrow> link_aggregator \<Rightarrow> link_aggregator" where
  "update_connection_status local_node s =
     fold (update_connection local_node) (connections local_node) s"

definition adjust_aggregation_mode :: "link_aggregator \<Rightarrow> link_aggregator" where
  "adjust_aggregation_mode s =
     (let active = filter (\<lambda>(iface, info). ci_active info) (active_connections s)
      in if length active = 0 then s\<lparr>aggregation_mode := ''failover''\<rparr>
         else if length active = 1 then s\<lparr>aggregation_mode := ''failover''\<rparr>
         else s\<lparr>aggregation_mode := ''load_balance''\<rparr>)"

text \<open>
  \<open>optimize_aggregation\<close>: an exception of the weight computation is logged and the
  remaining steps of the tick are skipped; the refreshed connection status stays.
\<close>

definition optimize_aggregation ::
  "(real \<Rightarrow> real option) \<Rightarrow> mesh_node \<Rightarrow> link_aggregator \<Rightarrow> link_aggregator" where
  "optimize_aggregation fl local_node s =
     (case calculate_weights fl (update_connection_status local_node s) of
        Inl e \<Rightarrow> update_connection_status local_node s
      | Inr s' \<Rightarrow> adjust_aggregation_mode s')"

text \<open>
  Selection. The value of \<open>np.random.random()\<close> is the input \<open>r\<close>. The keys of a
  dictionary are distinct, so \<open>self.active_connections[x]\<close> for a key \<open>x\<close> met while
  iterating is the entry paired with \<open>x\<close>; \<open>max\<close> and \<open>min\<close> keep the first of
  several best elements.
\<close>

fun first_active :: "(string \<times> conn_info) list \<Rightarrow> string option" where
  "first_active [] = None"
| "first_active ((interface, conn_info) # rest) =
     (if ci_active conn_info then Some interface else first_active rest)"

fun pick_cumulative :: "real \<Rightarrow> real \<Rightarrow> (string \<times> real) list \<Rightarrow> string option" where
  "pick_cumulative r cumulative [] = None"
| "pick_cumulative r cumulative ((iface, weight) # rest) =
     (if r \<le> cumulative + weight then Some iface
      else pick_cumulative r (cumulative + weight) rest)"

definition weighted_random_selection :: "real \<Rightarrow> link_aggregator \<Rightarrow> string option" where
  "weighted_random_selection r s =
     (let active_interfaces =
            map fst (filter (\<lambda>(iface, info).
                               ci_active info \<and> dict_get (connection_weights s) iface 0 > 0)
                       (active_connections s))
      in case active_interfaces of
           [] \<Rightarrow> None
         | first # others \<Rightarrow>
             let weights = map (\<lambda>iface. dict_get (connection_weights s) iface 0) active_interfaces;
                 total_weight = sum_list weights
             in if total_weight = 0 then Some first
                else
                  let normalized_weights = map (\<lambda>w. w / total_weight) weights
                  in (case pick_cumulative r 0 (zip active_interfaces normalized_weights) of
                        Some iface \<Rightarrow> Some iface
                      | None \<Rightarrow> Some (last (first # others))))"

fun best_by :: "('a \<Rightarrow> 'a \<Rightarrow> bool) \<Rightarrow> 'a \<Rightarrow> 'a list \<Rightarrow> 'a" where
  "best_by better best [] = best"
| "best_by better best (x # xs) = best_by better (if better x best then x else best) xs"

definition adaptive_selection :: "int \<Rightarrow> real \<Rightarrow> link_aggregator \<Rightarrow> string option" where
  "adaptive_selection packet_size r s =
     (if packet_size = 0 then weighted_random_selection r s
      else
        case filter (\<lambda>(iface, info). ci_active info) (active_connections s) of
          [] \<Rightarrow> None
        | first # others \<Rightarrow>
            if packet_size > 1000
            then Some (fst (best_by (\<lambda>x best. ci_bandwidth (snd x) > ci_bandwidth (snd best))
                              first others))
            else Some (fst (best_by (\<lambda>x best. ci_latency (snd x) < ci_latency (snd best))
                              first others)))"

definition select_connection :: "int \<Rightarrow> real \<Rightarrow> link_aggregator \<Rightarrow> string option" where
  "select_connection packet_size r s =
     (if active_connections s = [] then None
      else if aggregation_mode s = ''failover'' then first_active (active_connections s)
      else if aggregation_mode s = ''load_balance'' then weighted_random_selection r s
      else if aggregation_mode s = ''adaptive'' then adaptive_selection packet_size r s
      else None)"

text \<open>
  \<open>queue_packet\<close> and \<open>get_packet_from_queue\<close>. \<open>not interface\<close> holds for \<open>None\<close> and
  for the empty string.
\<close>

definition queue_packet ::
  "bytes \<Rightarrow> string option \<Rightarrow> real \<Rightarrow> link_aggregator \<Rightarrow> bool \<times> link_aggregator" where
  "queue_packet packet_data interface r s =
     (case (case interface of
              None \<Rightarrow> select_connection (int (length packet_data)) r s
            | Some given \<Rightarrow> Some given) of
        None \<Rightarrow> (False, s)
      | Some iface \<Rightarrow>
          if iface = [] then (False, s)
          else
            (case map_of (packet_queues s) iface of
               None \<Rightarrow> (False, s)
             | Some q \<Rightarrow>
                 if length (items q) \<ge> max_queue_size s then (False, s)
                 else
                   let s1 = s\<lparr>packet_queues :=
                                AList.update iface (deque_append packet_data q) (packet_queues s)\<rparr>
                   in (True,
                       case map_of (active_connections s1) iface of
                         None \<Rightarrow> s1
                       | Some info \<Rightarrow>
                           s1\<lparr>active_connections :=
                                AList.update iface
                                  (info\<lparr>ci_packet_count := ci_packet_count info + 1,
                                        ci_bytes_sent := ci_bytes_sent info + length packet_data\<rparr>)
                                  (active_connections s1)\<rparr>)))"

definition get_packet_from_queue :: "string \<Rightarrow> link_aggregator \<Rightarrow> bytes option \<times> link_aggregator" where
  "get_packet_from_queue interface s =
     (case map_of (packet_queues s) interface of
        None \<Rightarrow> (None, s)
      | Some q \<Rightarrow>
          (case items q of
             [] \<Rightarrow> (None, s)
           | packet # rest \<Rightarrow>
               (Some packet,
                s\<lparr>packet_queues := AList.update interface (q\<lparr>items := rest\<rparr>) (packet_queues s)\<rparr>)))"

text \<open>Driving the two queue operations repeatedly on one interface.\<close>

fun queue_packets :: "bytes list \<Rightarrow> string \<Rightarrow> real \<Rightarrow> link_aggregator \<Rightarrow> bool list \<times> link_aggregator" where
  "queue_packets [] iface r s = ([], s)"
| "queue_packets (p # ps) iface r s =
     (case queue_packet p (Some iface) r s of
        (ok, s1) \<Rightarrow> (case queue_packets ps iface r s1 of (oks, s2) \<Rightarrow> (ok # oks, s2)))"

fun get_packets :: "nat \<Rightarrow> string \<Rightarrow> link_aggregator \<Rightarrow> bytes option list \<times> link_aggregator" where
  "get_packets 0 iface s = ([], s)"
| "get_packets (Suc n) iface s =
     (case get_packet_from_queue iface s of
        (out, s1) \<Rightarrow> (case get_packets n iface s1 of (outs, s2) \<Rightarrow> (out # outs, s2)))"

text \<open>
  What \<open>initialize\<close> establishes and every operation keeps: each queue belongs to an
  interface that has a connection entry, and no queue's \<open>maxlen\<close> is below the limit
  that \<open>queue_packet\<close> checks.
\<close>

definition queues_wf :: "link_aggregator \<Rightarrow> bool" where
  "queues_wf s =
     list_all (\<lambda>(iface, q). max_queue_size s \<le> maxlen q \<and>
                            map_of (active_connections s) iface \<noteq> None)
       (packet_queues s)"

text \<open>An interface qualifies for weighting when it is active, has bandwidth and is reachable.\<close>

definition qualifies :: "conn_info \<Rightarrow> bool" where
  "qualifies info = (ci_active info \<and> ci_bandwidth info > 0 \<and> ci_latency info < 1000)"

definition sample_node :: mesh_node where
  "sample_node =
     \<lparr>node_id = ''test-node'', ip_address = ''192.168.1.100'',
      connections = [''eth0'', ''wlan0'', ''ppp0''],
      bandwidth = [(''eth0'', 100), (''wlan0'', 50), (''ppp0'', 15)],
      latency = [(''eth0'', 10), (''wlan0'', 25), (''ppp0'', 45)],
      last_seen = 1234567890,
      data_caps = [(''eth0'', 0), (''wlan0'', 0), (''ppp0'', 100)]\<rparr>"

text \<open>
  The aggregator of the repository's test fixture, right after \<open>initialize\<close>, with
  the weights in exact arithmetic.
\<close>

definition sample_state :: link_aggregator where
  "sample_state =
     (case initialize exact sample_node LinkAggregator of Inl e \<Rightarrow> LinkAggregator | Inr s \<Rightarrow> s)"

text \<open>
  A node whose only interface is unreachable: \<open>measure_latency\<close> reports the sentinel
  1000 when no probe succeeds. \<open>unreachable_state\<close> is the aggregator after
  \<open>initialize\<close> and one optimisation tick on that node.
\<close>

definition unreachable_node :: mesh_node where
  "unreachable_node =
     \<lparr>node_id = ''test-node'', ip_address = ''192.168.1.100'',
      connections = [''eth0''],
      bandwidth = [(''eth0'', 100)],
      latency = [(''eth0'', 1000)],
      last_seen = 1234567890,
      data_caps = [(''eth0'', 0)]\<rparr>"

definition unreachable_state :: link_aggregator where
  "unreachable_state =
     (case initialize exact unreachable_node LinkAggregator of
        Inl e \<Rightarrow> LinkAggregator
      | Inr s \<Rightarrow> optimize_aggregation exact unreachable_node s)"

section \<open>Mesh manager: peer table\<close>

text \<open>
  A \<open>MeshNode\<close> built from a discovery record keeps the decoded values as they came, so
  its fields other than the identifier and \<open>last_seen\<close> are JSON values. The peer
  table \<open>mesh_nodes\<close> is a dictionary from node id to such a record.
\<close>

record peer_node =
  pn_node_id :: string
  pn_ip_address :: json
  pn_connections :: json
  pn_bandwidth :: json
  pn_latency :: json
  pn_last_seen :: real
  pn_data_caps :: json

record mesh_manager =
  local_node :: "mesh_node option"
  mesh_nodes :: "(string \<times> peer_node) list"
  mm_active_connections :: "string list"
  mm_running :: bool














section \<open>Failover manager: state and transitions\<close>

datatype failover_state = NORMAL | MONITORING | FAILING_OVER | RECOVERING | DEGRADED

text \<open>The \<open>details\<close> dictionary of an event has one of three shapes.\<close>

datatype event_details =
    LostDetails int failover_state
  | RestoredDetails int failover_state
  | ManualDetails string bool

record failover_event =
  event_type :: string
  ev_interface :: string
  ev_timestamp :: real
  details :: event_details

record failover_manager =
  state :: failover_state
  primary_interface :: "string option"
  backup_interfaces :: "string list"
  failed_interfaces :: "string set"
  failover_threshold :: int
  recovery_threshold :: int
  monitoring_interval :: real
  failure_counts :: "(string \<times> int) list"
  success_counts :: "(string \<times> int) list"
  last_check :: "(string \<times> real) list"
  failover_events :: "failover_event list"

definition FailoverManager :: failover_manager where
  "FailoverManager =
     \<lparr>state = NORMAL, primary_interface = None, backup_interfaces = [],
      failed_interfaces = {}, failover_threshold = 3, recovery_threshold = 2,
      monitoring_interval = 10, failure_counts = [], success_counts = [],
      last_check = [], failover_events = []\<rparr>"

definition select_new_primary :: "failover_manager \<Rightarrow> failover_manager" where
  "select_new_primary s =
     (case filter (\<lambda>iface. iface \<notin> failed_interfaces s) (backup_interfaces s) of
        [] \<Rightarrow> s\<lparr>primary_interface := None\<rparr>
      | first # others \<Rightarrow> s\<lparr>primary_interface := Some first\<rparr>)"

text \<open>
  \<open>_failover_interface\<close> and \<open>_recover_interface\<close>. \<open>now\<close> is the reading of
  \<open>time.time()\<close> for the event. Reading \<open>failure_counts[interface]\<close> raises \<open>KeyError\<close>
  when the counter is missing; the interface has then already been added to the failed
  set, so the exception comes with the state at that point.
\<close>

definition failover_interface ::
  "real \<Rightarrow> string \<Rightarrow> failover_manager \<Rightarrow> py_error \<times> failover_manager + failover_manager" where
  "failover_interface now interface s =
     (if interface \<in> failed_interfaces s then Inr s
      else
        let s1 = s\<lparr>failed_interfaces := insert interface (failed_interfaces s)\<rparr>
        in case map_of (failure_counts s1) interface of
             None \<Rightarrow> Inl (KeyError, s1)
           | Some failure_count \<Rightarrow>
               let s2 = s1\<lparr>failover_events :=
                             failover_events s1 @
                             [\<lparr>event_type = ''connection_lost'', ev_interface = interface,
                               ev_timestamp = now,
                               details = LostDetails failure_count (state s1)\<rparr>]\<rparr>
               in Inr (if primary_interface s2 = Some interface
                       then select_new_primary s2 else s2))"

text \<open>The recovery event records the success counter after it has been reset to 0.\<close>

definition recover_interface :: "real \<Rightarrow> string \<Rightarrow> failover_manager \<Rightarrow> failover_manager" where
  "recover_interface now interface s =
     (if interface \<notin> failed_interfaces s then s
      else
        select_new_primary
          (s\<lparr>failed_interfaces := failed_interfaces s - {interface},
             failure_counts := AList.update interface 0 (failure_counts s),
             success_counts := AList.update interface 0 (success_counts s),
             failover_events :=
               failover_events s @
               [\<lparr>event_type = ''connection_restored'', ev_interface = interface,
                 ev_timestamp = now, details = RestoredDetails 0 (state s)\<rparr>]\<rparr>))"

definition handle_connection_success :: "real \<Rightarrow> string \<Rightarrow> failover_manager \<Rightarrow> failover_manager" where
  "handle_connection_success now interface s =
     (let s1 = s\<lparr>failure_counts := AList.update interface 0 (failure_counts s)\<rparr>;
          successes = dict_get (success_counts s1) interface 0 + 1;
          s2 = s1\<lparr>success_counts := AList.update interface successes (success_counts s1)\<rparr>
      in if interface \<in> failed_interfaces s2 \<and> successes \<ge> recovery_threshold s2
         then recover_interface now interface s2 else s2)"

definition handle_connection_failure ::
  "real \<Rightarrow> string \<Rightarrow> failover_manager \<Rightarrow> py_error \<times> failover_manager + failover_manager" where
  "handle_connection_failure now interface s =
     (let s1 = s\<lparr>success_counts := AList.update interface 0 (success_counts s)\<rparr>;
          failures = dict_get (failure_counts s1) interface 0 + 1;
          s2 = s1\<lparr>failure_counts := AList.update interface failures (failure_counts s1)\<rparr>
      in if failures \<ge> failover_threshold s2
         then failover_interface now interface s2 else Inr s2)"

text \<open>
  The body of the loop of \<open>check_failover_conditions\<close> for one interface of
  \<open>local_node.connections\<close>, with the outcomes of its probes should it be checked.
  An event takes its timestamp from \<open>event_time\<close>, indexed by the length of the log.
\<close>

definition check_interface ::
  "real \<Rightarrow> (nat \<Rightarrow> real) \<Rightarrow> string \<times> bool list \<Rightarrow> failover_manager
     \<Rightarrow> py_error \<times> failover_manager + failover_manager" where
  "check_interface current_time event_time conn s =
     (let interface = fst conn;
          s1 = (case map_of (last_check s) interface of
                  None \<Rightarrow> s\<lparr>last_check := AList.update interface 0 (last_check s)\<rparr>
                | Some t \<Rightarrow> s)
      in if current_time - dict_get (last_check s1) interface 0 \<ge> monitoring_interval s1
         then
           let is_healthy = check_connection_health (snd conn);
               s2 = s1\<lparr>last_check := AList.update interface current_time (last_check s1)\<rparr>;
               now = event_time (length (failover_events s2))
           in if is_healthy then Inr (handle_connection_success now interface s2)
              else handle_connection_failure now interface s2
         else Inr s1)"

fun check_interfaces ::
  "real \<Rightarrow> (nat \<Rightarrow> real) \<Rightarrow> (string \<times> bool list) list \<Rightarrow> failover_manager
     \<Rightarrow> py_error \<times> failover_manager + failover_manager" where
  "check_interfaces current_time event_time [] s = Inr s"
| "check_interfaces current_time event_time (conn # rest) s =
     (case check_interface current_time event_time conn s of
        Inl raised \<Rightarrow> Inl raised
      | Inr s' \<Rightarrow> check_interfaces current_time event_time rest s')"

definition update_system_state :: "nat \<Rightarrow> failover_manager \<Rightarrow> failover_manager" where
  "update_system_state total_connections s =
     (let failed_count = int (card (failed_interfaces s));
          active_connections = int total_connections - failed_count;
          new_state =
            (if active_connections = 0 then DEGRADED
             else if failed_count = 0 then NORMAL
             else if active_connections = 1 then MONITORING
             else NORMAL)
      in if new_state \<noteq> state s then s\<lparr>state := new_state\<rparr> else s)"

text \<open>
  \<open>check_failover_conditions\<close>: the loop, then the state inference
  (\<open>_handle_state_transitions\<close> only logs). An exception is logged and ends the tick
  with the state as changed so far.
\<close>

definition check_failover_conditions ::
  "real \<Rightarrow> (nat \<Rightarrow> real) \<Rightarrow> (string \<times> bool list) list \<Rightarrow> failover_manager \<Rightarrow> failover_manager" where
  "check_failover_conditions current_time event_time conns s =
     (case check_interfaces current_time event_time conns s of
        Inl (e, s') \<Rightarrow> s'
      | Inr s' \<Rightarrow> update_system_state (length conns) s')"

definition manual_failover ::
  "real \<Rightarrow> string \<Rightarrow> string \<Rightarrow> failover_manager \<Rightarrow> bool \<times> failover_manager" where
  "manual_failover now from_interface to_interface s =
     (let s1 = s\<lparr>failed_interfaces := insert from_interface (failed_interfaces s)\<rparr>;
          s2 = (if to_interface \<in> failed_interfaces s1
                then s1\<lparr>failed_interfaces := failed_interfaces s1 - {to_interface}\<rparr> else s1);
          s3 = s2\<lparr>primary_interface := Some to_interface\<rparr>
      in (True,
          s3\<lparr>failover_events :=
               failover_events s3 @
               [\<lparr>event_type = ''manual_failover'', ev_interface = from_interface,
                 ev_timestamp = now, details = ManualDetails to_interface True\<rparr>]\<rparr>))"

text \<open>The remaining methods that assign to the state.\<close>

definition set_primary_interface :: "string \<Rightarrow> failover_manager \<Rightarrow> failover_manager" where
  "set_primary_interface interface s = s\<lparr>primary_interface := Some interface\<rparr>"

definition set_backup_interfaces :: "string list \<Rightarrow> failover_manager \<Rightarrow> failover_manager" where
  "set_backup_interfaces ifaces s = s\<lparr>backup_interfaces := ifaces\<rparr>"

definition clear_failure_history :: "failover_manager \<Rightarrow> failover_manager" where
  "clear_failure_history s = s\<lparr>failure_counts := [], success_counts := []\<rparr>"

text \<open>The types of the events of a log that concern one interface, in order.\<close>

definition events_for :: "string \<Rightarrow> failover_event list \<Rightarrow> string list" where
  "events_for iface evs = map event_type (filter (\<lambda>e. ev_interface e = iface) evs)"

text \<open>
  The events a tick owes an interface, from its membership in the failed set before
  (\<open>was\<close>) and after (\<open>is\<close>) the tick.
\<close>

definition owed_events :: "bool \<Rightarrow> bool \<Rightarrow> string list" where
  "owed_events was is =
     (if is \<and> \<not> was then [''connection_lost'']
      else if was \<and> \<not> is then [''connection_restored'']
      else [])"

text \<open>Scenario 3 of the specification: \<open>eth0\<close> as primary, \<open>wlan0\<close> as backup.\<close>

definition sample_failover :: failover_manager where
  "sample_failover =
     FailoverManager\<lparr>primary_interface := Some ''eth0'', backup_interfaces := [''wlan0'']\<rparr>"

definition tick_clock :: "nat \<Rightarrow> real" where
  "tick_clock n = 5 + real n"

text \<open>
  Two ticks on which the probes of \<open>eth0\<close> fail, and the third such tick; then a
  manual failover from \<open>eth0\<close> to \<open>wlan0\<close>, issued once on the fresh manager and
  once more.
\<close>

definition two_failures :: failover_manager where
  "two_failures =
     check_failover_conditions 20 tick_clock [(''eth0'', [False, False]), (''wlan0'', [True, True])]
       (check_failover_conditions 10 tick_clock [(''eth0'', [True, False]), (''wlan0'', [True, True])]
          sample_failover)"

definition third_failure :: failover_manager where
  "third_failure =
     check_failover_conditions 30 tick_clock [(''eth0'', [False, True]), (''wlan0'', [True, True])]
       two_failures"

definition manual_once :: failover_manager where
  "manual_once = snd (manual_failover 1 ''eth0'' ''wlan0'' sample_failover)"

definition manual_twice :: failover_manager where
  "manual_twice = snd (manual_failover 2 ''eth0'' ''wlan0'' manual_once)"

section \<open>Properties\<close>

subsection \<open>Health check\<close>

lemma count_successes_filter:
  "count_successes probes n = n + length (filter (\<lambda>ok. ok) probes)"
  by (induction probes arbitrary: n) simp_all

text \<open>
  Claim C7. A per-tick health check reports the interface healthy exactly when strictly
  more than half of the probes succeed; with the two default targets both probes must
  succeed.
\<close>

theorem check_connection_health_majority:
  "check_connection_health probes = (length probes < 2 * length (filter (\<lambda>ok. ok) probes))
   \<and> check_connection_health [p1, p2] = (p1 \<and> p2)"
proof -
  have "check_connection_health probes = (length probes < 2 * length (filter (\<lambda>ok. ok) probes))"
    unfolding check_connection_health_def count_successes_filter by simp presburger
  moreover have "check_connection_health [p1, p2] = (p1 \<and> p2)"
    unfolding check_connection_health_def by simp
  ultimately show ?thesis by blast
qed

subsection \<open>Performance report\<close>

lemma attr_block_five:
  "attr_block m
     [(''bandwidth_up'', ''bandwidth_up''), (''bandwidth_down'', ''bandwidth_down''),
      (''latency'', ''latency''), (''jitter'', ''jitter''), (''packet_loss'', ''packet_loss'')]
   = Inr [(''bandwidth_up'', bandwidth_up m), (''bandwidth_down'', bandwidth_down m),
          (''latency'', pm_latency m), (''jitter'', jitter m), (''packet_loss'', packet_loss m)]"
  by (simp add: pm_getattr_def)

lemma attr_block_peaks:
  "attr_block m
     [(''bandwidth_up'', ''bandwidth_up''), (''bandwidth_down'', ''bandwidth_down''),
      (''latency'', ''latency''), (''jitter'', ''jitter''), (''packet_loss'', ''peaks'')]
   = Inl AttributeError"
  by (simp add: pm_getattr_def)

lemma interface_report_raises: "interface_report metrics = Inl AttributeError"
  unfolding interface_report_def attr_block_five attr_block_peaks by simp

text \<open>
  Claim C9. The claim says that the report is generated and that its peaks block holds
  the maxima of the history. In the code the report reads the attribute \<open>peaks\<close> of the
  peaks snapshot, which does not exist: as soon as one interface has been measured,
  report generation raises \<open>AttributeError\<close>.
\<close>

theorem get_performance_report_raises:
  "get_performance_report now
     (collect_interface_metrics iface bw lat jit loss t t_avg t_peak c) = Inl AttributeError"
proof -
  let ?c = "collect_interface_metrics iface bw lat jit loss t t_avg t_peak c"
  have "interfaces ?c \<noteq> []"
    by (auto simp: collect_interface_metrics_def Let_def map_of_eq_None_iff update_conv'
          split: option.splits dest!: arg_cong[where f=length])
  then obtain iface' m' rest' where "interfaces ?c = (iface', m') # rest'"
    by (cases "interfaces ?c") auto
  then show ?thesis
    by (simp add: get_performance_report_def interface_report_raises)
qed

subsection \<open>Node discovery\<close>

lemma validate_obj: "validate_node_data nid (JObj kvs) = Inr (admissible nid kvs)"
  by (auto simp: validate_node_data_def required_fields_def admissible_def
      split: option.splits)

lemma admissible_update_group:
  "admissible nid (AList.update ''group'' g kvs) = admissible nid kvs"
  by (simp add: admissible_def update_conv')

lemma admissible_delete_group:
  "admissible nid (AList.delete ''group'' kvs) = admissible nid kvs"
  by (simp add: admissible_def delete_conv')

lemma validate_with_group:
  "validate_node_data nid (with_group g d) = validate_node_data nid d"
proof (cases d)
  case (JObj kvs)
  then show ?thesis
    by (cases g) (simp_all add: validate_obj admissible_update_group admissible_delete_group)
qed simp_all

lemma validate_regroup:
  "validate_node_data nid (regroup f d) = validate_node_data nid d"
  by (simp add: regroup_def validate_with_group)

lemma validate_True_obj:
  assumes "validate_node_data nid d = Inr True"
  shows "\<exists>kvs. d = JObj kvs \<and> admissible nid kvs"
proof (cases d)
  case (JObj kvs)
  with assms show ?thesis by (simp add: validate_obj)
next
  case (JList xs)
  with assms show ?thesis
    by (auto simp: validate_node_data_def split: sum.splits if_splits)
next
  case (JStr x)
  with assms show ?thesis
    by (auto simp: validate_node_data_def split: sum.splits if_splits)
qed (use assms in \<open>auto simp: validate_node_data_def required_fields_def\<close>)

lemma parse_responses_valid:
  assumes "\<forall>d \<in> set acc. validate_node_data nid d = Inr True"
  shows "\<forall>d \<in> set (parse_responses nid rs acc). validate_node_data nid d = Inr True"
  using assms
proof (induction rs arbitrary: acc)
  case Nil
  then show ?case by simp
next
  case (Cons resp rs)
  show ?case
  proof (cases resp)
    case (Inl e)
    with Cons show ?thesis by simp
  next
    case decoded: (Inr node_data)
    show ?thesis
    proof (cases "validate_node_data nid node_data")
      case (Inl e)
      with decoded Cons.prems show ?thesis by simp
    next
      case (Inr ok)
      have "\<forall>d \<in> set (if ok then acc @ [node_data] else acc). validate_node_data nid d = Inr True"
        using Cons.prems Inr by auto
      from Cons.IH[OF this] decoded Inr show ?thesis by simp
    qed
  qed
qed

lemma discover_nodes_valid:
  "d \<in> set (discover_nodes nid listened) \<Longrightarrow> \<exists>kvs. d = JObj kvs \<and> admissible nid kvs"
proof -
  assume d: "d \<in> set (discover_nodes nid listened)"
  have "validate_node_data nid d = Inr True"
  proof (cases listened)
    case (Inl e)
    with d show ?thesis by (simp add: discover_nodes_def)
  next
    case (Inr rs)
    have "\<forall>d \<in> set (parse_responses nid rs []). validate_node_data nid d = Inr True"
      by (rule parse_responses_valid) simp
    with d Inr show ?thesis by (simp add: discover_nodes_def)
  qed
  then show ?thesis by (rule validate_True_obj)
qed

lemma parse_responses_regroup:
  "parse_responses nid (map (map_sum id (regroup f)) rs) (map (regroup f) acc)
   = map (regroup f) (parse_responses nid rs acc)"
proof (induction rs arbitrary: acc)
  case Nil
  then show ?case by simp
next
  case (Cons resp rs)
  show ?case
  proof (cases resp)
    case (Inl e)
    with Cons show ?thesis by simp
  next
    case decoded: (Inr node_data)
    show ?thesis
    proof (cases "validate_node_data nid node_data")
      case (Inl e)
      with decoded show ?thesis by (simp add: validate_regroup)
    next
      case (Inr ok)
      from Cons[of "if ok then acc @ [node_data] else acc"] decoded Inr
      show ?thesis by (cases ok) (simp_all add: validate_regroup)
    qed
  qed
qed

text \<open>
  Claim C3, as the code has it. Every datagram that a discovery pass accepts is a
  decoded object that is admissible: it has the five required fields at the top level
  with the types string, string, list, mapping, mapping and a node id other than the
  receiver's. The \<open>group\<close> entry plays no part: when the group entries of the
  received datagrams are set to other values or removed, in any way, the pass accepts
  the same datagrams and stops at the same place.
\<close>

theorem discover_nodes_ignores_group:
  "(\<forall>d \<in> set (discover_nodes nid listened). \<exists>kvs. d = JObj kvs \<and> admissible nid kvs)
   \<and> discover_nodes nid (map_sum id (map (map_sum id (regroup f))) listened)
       = map (regroup f) (discover_nodes nid listened)"
proof
  show "\<forall>d \<in> set (discover_nodes nid listened). \<exists>kvs. d = JObj kvs \<and> admissible nid kvs"
    using discover_nodes_valid by blast
  show "discover_nodes nid (map_sum id (map (map_sum id (regroup f))) listened)
          = map (regroup f) (discover_nodes nid listened)"
  proof (cases listened)
    case (Inl e)
    then show ?thesis by (simp add: discover_nodes_def)
  next
    case (Inr rs)
    from parse_responses_regroup[of nid f rs "[]"] Inr show ?thesis
      by (simp add: discover_nodes_def)
  qed
qed

text \<open>
  The claim as stated fails: a discovery pass accepts a datagram of another group and a
  datagram that carries no group at all.
\<close>

theorem group_not_checked_counterexample:
  "discover_nodes (Some ''local-node'')
     (Inr [Inr (JObj [(''node_id'', JStr ''peer-001''), (''ip_address'', JStr ''192.168.1.101''),
                       (''connections'', JList [JStr ''eth0'']),
                       (''bandwidth'', JObj [(''eth0'', JNum 100)]),
                       (''latency'', JObj [(''eth0'', JNum 10)]),
                       (''group'', JStr ''OTHER_GROUP'')]),
           Inr (JObj [(''node_id'', JStr ''peer-002''), (''ip_address'', JStr ''192.168.1.102''),
                       (''connections'', JList []),
                       (''bandwidth'', JObj []),
                       (''latency'', JObj [])])])
   = [JObj [(''node_id'', JStr ''peer-001''), (''ip_address'', JStr ''192.168.1.101''),
            (''connections'', JList [JStr ''eth0'']),
            (''bandwidth'', JObj [(''eth0'', JNum 100)]),
            (''latency'', JObj [(''eth0'', JNum 10)]),
            (''group'', JStr ''OTHER_GROUP'')],
      JObj [(''node_id'', JStr ''peer-002''), (''ip_address'', JStr ''192.168.1.102''),
            (''connections'', JList []),
            (''bandwidth'', JObj []),
            (''latency'', JObj [])]]"
  by (simp add: discover_nodes_def validate_obj admissible_def eq_node_id_def)

text \<open>
  The theorem at a pass of three datagrams: one of another group, one that is a bare
  number and ends the pass, one without a group that is therefore never reached.
\<close>

theorem discover_nodes_ignores_group_witness:
  "discover_nodes (Some ''local-node'') (Inr [Inr foreign_datagram, Inr (JNum 5), Inr groupless_datagram])
     = [foreign_datagram]
   \<and> admissible (Some ''local-node'')
         [(''node_id'', JStr ''peer-001''), (''ip_address'', JStr ''192.168.1.101''),
          (''connections'', JList [JStr ''eth0'']),
          (''bandwidth'', JObj [(''eth0'', JNum 100)]),
          (''latency'', JObj [(''eth0'', JNum 10)]),
          (''group'', JStr ''OTHER_GROUP'')]
   \<and> discover_nodes (Some ''local-node'')
         (Inr [Inr (with_group None foreign_datagram), Inr (JNum 5),
               Inr (with_group None groupless_datagram)])
     = [with_group None foreign_datagram]"
proof -
  have run: "discover_nodes (Some ''local-node'')
               (Inr [Inr foreign_datagram, Inr (JNum 5), Inr groupless_datagram])
             = [foreign_datagram]"
    by (simp add: discover_nodes_def foreign_datagram_def groupless_datagram_def validate_obj
        admissible_def eq_node_id_def validate_node_data_def required_fields_def)
  from discover_nodes_ignores_group[of "Some ''local-node''"
         "Inr [Inr foreign_datagram, Inr (JNum 5), Inr groupless_datagram]" "\<lambda>d. None"] run
  show ?thesis
    by (simp add: regroup_def foreign_datagram_def)
qed

lemma advertisement_data_valid:
  "validate_node_data nid (advertisement_data node t) = Inr (nid \<noteq> Some (node_id node))"
  by (auto simp: advertisement_data_def validate_obj admissible_def eq_node_id_def float_dict_def
      split: option.splits)

text \<open>
  Claim C4. The advertisement puts the node's fields under the key \<open>node_data\<close> of
  an envelope, while the receiver looks for the five required fields at the top level of
  the datagram. So the advertisement of every node is rejected by every receiver and no
  Node record is produced, although the enclosed record alone would pass
  (\<open>advertisement_data_valid\<close>).
\<close>

theorem advertisement_round_trip_rejected:
  "validate_node_data nid (advertise_node node t1 t2) = Inr False
   \<and> discover_nodes nid (Inr [Inr (advertise_node node t1 t2)]) = []"
  by (simp add: discover_nodes_def advertise_node_def send_advertisement_def validate_obj admissible_def)

subsection \<open>Send queues\<close>

lemma deque_append_room:
  "length (items q) < maxlen q \<Longrightarrow> deque_append x q = q\<lparr>items := items q @ [x]\<rparr>"
  by (simp add: deque_append_def)

lemma queues_wf_lookup:
  "queues_wf s \<Longrightarrow> map_of (packet_queues s) iface = Some q \<Longrightarrow>
     max_queue_size s \<le> maxlen q \<and> (\<exists>info. map_of (active_connections s) iface = Some info)"
  by (auto simp: queues_wf_def list_all_iff dest!: map_of_SomeD)

lemma queue_packet_given:
  assumes "queues_wf s" and "map_of (packet_queues s) iface = Some q"
    and "iface \<noteq> []" and "length (items q) < max_queue_size s"
  shows "\<exists>info. map_of (active_connections s) iface = Some info \<and>
           queue_packet p (Some iface) r s =
             (True, s\<lparr>packet_queues := AList.update iface (q\<lparr>items := items q @ [p]\<rparr>) (packet_queues s),
                      active_connections :=
                        AList.update iface
                          (info\<lparr>ci_packet_count := ci_packet_count info + 1,
                                ci_bytes_sent := ci_bytes_sent info + length p\<rparr>)
                          (active_connections s)\<rparr>)"
proof -
  from queues_wf_lookup[OF assms(1,2)] obtain info
    where cap: "max_queue_size s \<le> maxlen q"
      and info: "map_of (active_connections s) iface = Some info" by blast
  from cap assms(4) have "length (items q) < maxlen q" by simp
  then have "deque_append p q = q\<lparr>items := items q @ [p]\<rparr>" by (rule deque_append_room)
  with assms info show ?thesis
    by (simp add: queue_packet_def Let_def)
qed

lemma queue_packet_cases:
  assumes "queues_wf s"
    and "target = (case interface of
                     None \<Rightarrow> select_connection (int (length p)) r s
                   | Some given \<Rightarrow> Some given)"
  shows "(\<exists>iface q info. target = Some iface \<and> iface \<noteq> [] \<and>
            map_of (packet_queues s) iface = Some q \<and> length (items q) < max_queue_size s \<and>
            map_of (active_connections s) iface = Some info \<and>
            queue_packet p interface r s =
              (True, s\<lparr>packet_queues := AList.update iface (q\<lparr>items := items q @ [p]\<rparr>) (packet_queues s),
                       active_connections :=
                         AList.update iface
                           (info\<lparr>ci_packet_count := ci_packet_count info + 1,
                                 ci_bytes_sent := ci_bytes_sent info + length p\<rparr>)
                           (active_connections s)\<rparr>))
         \<or> (queue_packet p interface r s = (False, s) \<and>
              (target = None \<or> target = Some [] \<or>
               (\<exists>iface. target = Some iface \<and>
                  (map_of (packet_queues s) iface = None \<or>
                   (\<exists>q. map_of (packet_queues s) iface = Some q \<and>
                        max_queue_size s \<le> length (items q))))))"
proof (cases target)
  case None
  with assms(2) show ?thesis by (simp add: queue_packet_def)
next
  case (Some iface)
  have same: "queue_packet p interface r s = queue_packet p (Some iface) r s"
    using Some assms(2) by (simp add: queue_packet_def split: option.splits)
  show ?thesis
  proof (cases "iface = []")
    case True
    with Some same show ?thesis by (simp add: queue_packet_def)
  next
    case nonempty: False
    show ?thesis
    proof (cases "map_of (packet_queues s) iface")
      case None
      with Some same nonempty show ?thesis by (simp add: queue_packet_def)
    next
      case qs: (Some q)
      show ?thesis
      proof (cases "length (items q) < max_queue_size s")
        case True
        from queue_packet_given[OF assms(1) qs nonempty True, of p r] Some same qs nonempty True
        show ?thesis by auto
      next
        case False
        with Some same nonempty qs show ?thesis by (simp add: queue_packet_def)
      qed
    qed
  qed
qed

text \<open>
  Claim C2. In a state that satisfies the invariant of \<open>initialize\<close>, enqueueing a
  payload on the given or the selected interface either returns \<open>True\<close>, and then
  the payload is the one new element at the tail of that interface's queue, its
  \<open>packet_count\<close> has grown by one and its \<open>bytes_sent\<close> by the payload length, all
  else unchanged; or it returns \<open>False\<close> and the state is unchanged, which happens
  exactly when no interface with a queue is available or the queue already holds
  \<open>max_queue_size\<close> elements.
\<close>

theorem queue_packet_all_or_nothing:
  assumes "queues_wf s"
    and "queue_packet p interface r s = (ok, s')"
    and "target = (case interface of
                     None \<Rightarrow> select_connection (int (length p)) r s
                   | Some given \<Rightarrow> Some given)"
  shows "(ok \<and>
          (\<exists>iface q info. target = Some iface \<and>
             map_of (packet_queues s) iface = Some q \<and>
             map_of (active_connections s) iface = Some info \<and>
             s' = s\<lparr>packet_queues :=
                      AList.update iface (q\<lparr>items := items q @ [p]\<rparr>) (packet_queues s),
                    active_connections :=
                      AList.update iface
                        (info\<lparr>ci_packet_count := ci_packet_count info + 1,
                              ci_bytes_sent := ci_bytes_sent info + length p\<rparr>)
                        (active_connections s)\<rparr>))
         \<or> (\<not> ok \<and> s' = s \<and>
              (target = None \<or> target = Some [] \<or>
               (\<exists>iface. target = Some iface \<and>
                  (map_of (packet_queues s) iface = None \<or>
                   (\<exists>q. map_of (packet_queues s) iface = Some q \<and>
                        max_queue_size s \<le> length (items q))))))"
  using queue_packet_cases[OF assms(1,3), of] assms(2) by auto

lemma in_set_update:
  "(a, b) \<in> set (AList.update k v al) \<Longrightarrow> (a, b) = (k, v) \<or> (a, b) \<in> set al"
  by (induction al) (auto split: if_splits)

lemma queues_wf_after_enqueue:
  assumes "queues_wf s" and "map_of (packet_queues s) iface = Some q"
    and "map_of (active_connections s) iface = Some info"
  shows "queues_wf (s\<lparr>packet_queues := AList.update iface (q\<lparr>items := xs\<rparr>) (packet_queues s),
                      active_connections := AList.update iface info' (active_connections s)\<rparr>)"
proof -
  have "max_queue_size s \<le> maxlen q"
    using queues_wf_lookup[OF assms(1,2)] by simp
  have mem: "(a, b) = (iface, q\<lparr>items := xs\<rparr>) \<or> (a, b) \<in> set (packet_queues s)"
    if "(a, b) \<in> set (AList.update iface (q\<lparr>items := xs\<rparr>) (packet_queues s))" for a b
    using that by (rule in_set_update)
  show ?thesis
    using assms(1,3) \<open>max_queue_size s \<le> maxlen q\<close>
    by (auto simp: queues_wf_def list_all_iff update_conv' dest!: mem)
qed

lemma queue_packets_all_accepted:
  assumes "queues_wf s" and "map_of (packet_queues s) iface = Some q" and "iface \<noteq> []"
    and "length (items q) + length ps \<le> max_queue_size s"
  shows "\<exists>s1. queue_packets ps iface r s = (replicate (length ps) True, s1) \<and>
              map_of (packet_queues s1) iface = Some (q\<lparr>items := items q @ ps\<rparr>)"
  using assms
proof (induction ps arbitrary: s q)
  case Nil
  then show ?case by simp
next
  case (Cons p ps)
  from Cons.prems have room: "length (items q) < max_queue_size s" by simp
  from queue_packet_given[OF Cons.prems(1,2,3) room, of p r] obtain info where
    info: "map_of (active_connections s) iface = Some info" and
    step: "queue_packet p (Some iface) r s =
             (True, s\<lparr>packet_queues := AList.update iface (q\<lparr>items := items q @ [p]\<rparr>) (packet_queues s),
                      active_connections :=
                        AList.update iface
                          (info\<lparr>ci_packet_count := ci_packet_count info + 1,
                                ci_bytes_sent := ci_bytes_sent info + length p\<rparr>)
                          (active_connections s)\<rparr>)"
    by blast
  let ?s1 = "s\<lparr>packet_queues := AList.update iface (q\<lparr>items := items q @ [p]\<rparr>) (packet_queues s),
                active_connections :=
                  AList.update iface
                    (info\<lparr>ci_packet_count := ci_packet_count info + 1,
                          ci_bytes_sent := ci_bytes_sent info + length p\<rparr>)
                    (active_connections s)\<rparr>"
  let ?q1 = "q\<lparr>items := items q @ [p]\<rparr>"
  have wf1: "queues_wf ?s1"
    by (rule queues_wf_after_enqueue[OF Cons.prems(1,2) info])
  have q1: "map_of (packet_queues ?s1) iface = Some ?q1"
    by (simp add: update_conv')
  have len1: "length (items ?q1) + length ps \<le> max_queue_size ?s1"
    using Cons.prems(4) by simp
  from Cons.IH[OF wf1 q1 Cons.prems(3) len1] obtain s2 where
    rest: "queue_packets ps iface r ?s1 = (replicate (length ps) True, s2)" and
    q2: "map_of (packet_queues s2) iface = Some (?q1\<lparr>items := items ?q1 @ ps\<rparr>)"
    by blast
  from step rest q2 show ?case by simp
qed

lemma get_packets_in_order:
  assumes "map_of (packet_queues s) iface = Some q"
  shows "\<exists>s2. get_packets (length (items q)) iface s = (map Some (items q), s2) \<and>
              map_of (packet_queues s2) iface = Some (q\<lparr>items := []\<rparr>)"
  using assms
proof (induction "items q" arbitrary: s q)
  case Nil
  then show ?case by simp
next
  case (Cons x xs)
  let ?s1 = "s\<lparr>packet_queues := AList.update iface (q\<lparr>items := xs\<rparr>) (packet_queues s)\<rparr>"
  have step: "get_packet_from_queue iface s = (Some x, ?s1)"
    using Cons.prems Cons.hyps(2)[symmetric] by (simp add: get_packet_from_queue_def)
  have q1: "map_of (packet_queues ?s1) iface = Some (q\<lparr>items := xs\<rparr>)"
    by (simp add: update_conv')
  have "xs = items (q\<lparr>items := xs\<rparr>)" by simp
  from Cons.hyps(1)[OF this q1] obtain s2 where
    "get_packets (length xs) iface ?s1 = (map Some xs, s2)"
    "map_of (packet_queues s2) iface = Some (q\<lparr>items := []\<rparr>)"
    by auto
  with step Cons.hyps(2)[symmetric] show ?case by simp
qed

lemma get_packet_from_queue_nothing:
  "(case map_of (packet_queues s) iface of None \<Rightarrow> True | Some q \<Rightarrow> items q = []) \<Longrightarrow>
     get_packet_from_queue iface s = (None, s)"
  by (simp add: get_packet_from_queue_def split: option.splits)

text \<open>
  Claim C10. On an interface with an initialised queue holding \<open>items q\<close>, payloads
  \<open>ps\<close> that fit under \<open>max_queue_size\<close> are all accepted, and dequeueing then returns
  first the payloads already queued and then \<open>ps\<close>, each in the order of its enqueue,
  after which the queue is empty. Dequeueing from an empty queue or from an interface
  without a queue returns nothing and leaves the whole state as it was.
\<close>

theorem send_queue_fifo:
  assumes "queues_wf s" and "map_of (packet_queues s) iface = Some q" and "iface \<noteq> []"
    and "length (items q) + length ps \<le> max_queue_size s"
  shows "(\<exists>s1 s2. queue_packets ps iface r s = (replicate (length ps) True, s1) \<and>
            get_packets (length (items q) + length ps) iface s1 = (map Some (items q @ ps), s2) \<and>
            get_packet_from_queue iface s2 = (None, s2))
         \<and> ((case map_of (packet_queues t) i of None \<Rightarrow> True | Some q' \<Rightarrow> items q' = []) \<longrightarrow>
              get_packet_from_queue i t = (None, t))"
proof -
  from queue_packets_all_accepted[OF assms, of r] obtain s1 where
    enq: "queue_packets ps iface r s = (replicate (length ps) True, s1)" and
    q1: "map_of (packet_queues s1) iface = Some (q\<lparr>items := items q @ ps\<rparr>)"
    by blast
  from get_packets_in_order[OF q1] obtain s2 where
    deq: "get_packets (length (items q) + length ps) iface s1 = (map Some (items q @ ps), s2)" and
    q2: "map_of (packet_queues s2) iface = Some (q\<lparr>items := []\<rparr>)"
    by auto
  from q2 have "get_packet_from_queue iface s2 = (None, s2)"
    by (simp add: get_packet_from_queue_nothing)
  with enq deq show ?thesis
    by (auto simp: get_packet_from_queue_nothing)
qed

text \<open>
  The invariant holds in a new aggregator, after \<open>initialize\<close>, and after each queue
  operation.
\<close>

lemma sample_state_eq:
  "sample_state =
     \<lparr>aggregation_mode = ''load_balance'',
      active_connections =
        [(''eth0'', \<lparr>ci_bandwidth = 100, ci_latency = 10, ci_data_cap = 0,
                     ci_active = True, ci_packet_count = 0, ci_bytes_sent = 0\<rparr>),
         (''wlan0'', \<lparr>ci_bandwidth = 50, ci_latency = 25, ci_data_cap = 0,
                      ci_active = True, ci_packet_count = 0, ci_bytes_sent = 0\<rparr>),
         (''ppp0'', \<lparr>ci_bandwidth = 15, ci_latency = 45, ci_data_cap = 100,
                     ci_active = True, ci_packet_count = 0, ci_bytes_sent = 0\<rparr>)],
      connection_weights = [(''eth0'', 30 / 37), (''wlan0'', 6 / 37), (''ppp0'', 1 / 37)],
      packet_queues =
        [(''eth0'', \<lparr>maxlen = 1000, items = []\<rparr>),
         (''wlan0'', \<lparr>maxlen = 1000, items = []\<rparr>),
         (''ppp0'', \<lparr>maxlen = 1000, items = []\<rparr>)],
      performance_history = [(''eth0'', []), (''wlan0'', []), (''ppp0'', [])],
      running = True, max_queue_size = 1000, rebalance_interval = 30,
      performance_window = 10\<rparr>"
  by (simp add: sample_state_def initialize_def sample_node_def LinkAggregator_def
      init_connection_def dict_get_def calculate_weights_def new_deque_def exact_def tenth_def)

lemma sample_state_wf: "queues_wf sample_state"
  by (simp add: sample_state_eq queues_wf_def)

lemma queues_wf_init_connection:
  assumes "queues_wf s"
  shows "queues_wf (init_connection node i s)"
proof -
  have "max_queue_size s \<le> maxlen b \<and>
        map_of (active_connections (init_connection node i s)) a \<noteq> None"
    if "(a, b) \<in> set (AList.update i (new_deque (max_queue_size s)) (packet_queues s))" for a b
  proof -
    from in_set_update[OF that]
    consider "(a, b) = (i, new_deque (max_queue_size s))" | "(a, b) \<in> set (packet_queues s)"
      by blast
    then show ?thesis
    proof cases
      case 1
      then show ?thesis by (simp add: new_deque_def init_connection_def update_conv')
    next
      case 2
      with assms show ?thesis
        by (auto simp: queues_wf_def list_all_iff init_connection_def update_conv')
    qed
  qed
  then show ?thesis
    by (auto simp: queues_wf_def list_all_iff init_connection_def)
qed

lemma queues_wf_fold_init:
  "queues_wf s \<Longrightarrow> queues_wf (fold (init_connection node) is s)"
  by (induction "is" arbitrary: s) (simp_all add: queues_wf_init_connection)

lemma queues_wf_weights:
  "calculate_weights fl s = Inr s' \<Longrightarrow> queues_wf s \<Longrightarrow> queues_wf s'"
  by (auto simp: calculate_weights_def queues_wf_def split: sum.splits if_splits)

lemma initialize_queues_wf:
  assumes "queues_wf s" and "initialize fl node s = Inr s'"
  shows "queues_wf s'"
proof -
  from assms(2) obtain s1 where
    w: "calculate_weights fl (fold (init_connection node) (connections node) s) = Inr s1"
    and s': "s' = s1\<lparr>running := True\<rparr>"
    by (auto simp: initialize_def split: sum.splits)
  from queues_wf_weights[OF w queues_wf_fold_init[OF assms(1)]] have "queues_wf s1" .
  with s' show ?thesis by (simp add: queues_wf_def)
qed

lemma LinkAggregator_wf: "queues_wf LinkAggregator"
  by (simp add: queues_wf_def LinkAggregator_def)

lemma queue_packet_queues_wf:
  assumes "queues_wf s"
  shows "queues_wf (snd (queue_packet p interface r s))"
  using queue_packet_cases[OF assms refl, where interface=interface and p=p and r=r] assms
  by (auto simp: queues_wf_after_enqueue)

lemma get_packet_queues_wf:
  assumes "queues_wf s"
  shows "queues_wf (snd (get_packet_from_queue iface s))"
proof (cases "map_of (packet_queues s) iface")
  case None
  with assms show ?thesis by (simp add: get_packet_from_queue_def)
next
  case (Some q)
  have cap: "max_queue_size s \<le> maxlen q" using queues_wf_lookup[OF assms Some] by simp
  have act: "\<exists>y. map_of (active_connections s) iface = Some y"
    using queues_wf_lookup[OF assms Some] by simp
  have mem: "(a, b) = (iface, q\<lparr>items := xs\<rparr>) \<or> (a, b) \<in> set (packet_queues s)"
    if "(a, b) \<in> set (AList.update iface (q\<lparr>items := xs\<rparr>) (packet_queues s))" for a b xs
    using that by (rule in_set_update)
  show ?thesis
    using assms Some cap act
    by (auto simp: get_packet_from_queue_def queues_wf_def list_all_iff split: list.splits dest!: mem)
qed

text \<open>An optimisation tick keeps the queues well formed, whether or not the weight
  computation completes.\<close>

lemma update_connection_queues_wf:
  "queues_wf s \<Longrightarrow> queues_wf (update_connection node i s)"
  by (auto simp: update_connection_def queues_wf_def list_all_iff update_conv'
      split: option.splits)

lemma queues_wf_fold_update:
  "queues_wf s \<Longrightarrow> queues_wf (fold (update_connection node) is s)"
  by (induction "is" arbitrary: s) (simp_all add: update_connection_queues_wf)

lemma update_connection_status_queues_wf:
  "queues_wf s \<Longrightarrow> queues_wf (update_connection_status node s)"
  by (simp add: update_connection_status_def queues_wf_fold_update)

lemma adjust_aggregation_mode_queues_wf:
  "queues_wf s \<Longrightarrow> queues_wf (adjust_aggregation_mode s)"
  by (simp add: adjust_aggregation_mode_def queues_wf_def Let_def)

lemma optimize_aggregation_queues_wf:
  assumes "queues_wf s"
  shows "queues_wf (optimize_aggregation fl node s)"
proof (cases "calculate_weights fl (update_connection_status node s)")
  case (Inl e)
  with assms show ?thesis
    by (simp add: optimize_aggregation_def update_connection_status_queues_wf)
next
  case (Inr s')
  from queues_wf_weights[OF Inr update_connection_status_queues_wf[OF assms]]
  have "queues_wf s'" .
  with Inr show ?thesis
    by (simp add: optimize_aggregation_def adjust_aggregation_mode_queues_wf)
qed

text \<open>The enqueue theorem at the test fixture: three bytes queued on \<open>eth0\<close>.\<close>

theorem queue_packet_all_or_nothing_witness:
  "queues_wf sample_state \<and>
   queue_packet ''abc'' (Some ''eth0'') 0 sample_state =
     (True,
      sample_state
        \<lparr>packet_queues :=
           AList.update ''eth0'' \<lparr>maxlen = 1000, items = [''abc'']\<rparr> (packet_queues sample_state),
         active_connections :=
           AList.update ''eth0''
             \<lparr>ci_bandwidth = 100, ci_latency = 10, ci_data_cap = 0,
              ci_active = True, ci_packet_count = 1, ci_bytes_sent = 3\<rparr>
             (active_connections sample_state)\<rparr>)"
proof -
  let ?run = "queue_packet ''abc'' (Some ''eth0'') 0 sample_state"
  have run: "?run = (fst ?run, snd ?run)" by simp
  have ok: "fst ?run"
    by (simp add: queue_packet_def sample_state_eq)
  from queue_packet_all_or_nothing[OF sample_state_wf run refl] ok
  have "snd ?run =
      sample_state
        \<lparr>packet_queues :=
           AList.update ''eth0'' \<lparr>maxlen = 1000, items = [''abc'']\<rparr> (packet_queues sample_state),
         active_connections :=
           AList.update ''eth0''
             \<lparr>ci_bandwidth = 100, ci_latency = 10, ci_data_cap = 0,
              ci_active = True, ci_packet_count = 1, ci_bytes_sent = 3\<rparr>
             (active_connections sample_state)\<rparr>"
    by (auto simp: sample_state_eq)
  with ok sample_state_wf show ?thesis
    by (simp add: prod_eq_iff)
qed

text \<open>The queue order theorem at the test fixture: three payloads in, the same three out.\<close>

theorem send_queue_fifo_witness:
  "queues_wf sample_state \<and>
   map_of (packet_queues sample_state) ''eth0'' = Some \<lparr>maxlen = 1000, items = []\<rparr> \<and>
   (\<exists>s1 s2. queue_packets [''p1'', ''p2'', ''p3''] ''eth0'' 0 sample_state = ([True, True, True], s1) \<and>
      get_packets 3 ''eth0'' s1 = ([Some ''p1'', Some ''p2'', Some ''p3''], s2) \<and>
      get_packet_from_queue ''eth0'' s2 = (None, s2)) \<and>
   get_packet_from_queue ''nonexistent'' sample_state = (None, sample_state)"
proof -
  have q: "map_of (packet_queues sample_state) ''eth0'' = Some \<lparr>maxlen = 1000, items = []\<rparr>"
    by (simp add: sample_state_eq)
  have ne: "''eth0'' \<noteq> []" by simp
  have len: "length (items \<lparr>maxlen = 1000, items = ([]::bytes list)\<rparr>) + length [''p1'', ''p2'', ''p3'']
               \<le> max_queue_size sample_state"
    by (simp add: sample_state_eq)
  have none: "(case map_of (packet_queues sample_state) ''nonexistent'' of
                None \<Rightarrow> True | Some q' \<Rightarrow> items q' = [])"
    by (simp add: sample_state_eq)
  from send_queue_fifo[OF sample_state_wf q ne len, of 0 sample_state "''nonexistent''"] none
  show ?thesis using sample_state_wf q
    by (simp add: numeral_3_eq_3)
qed

subsection \<open>Weights\<close>

text \<open>What a rounded result keeps of the exact one: its sign and, up to the unit
  roundoff, its size.\<close>

lemma unit_roundoff_bounds: "0 < unit_roundoff" "unit_roundoff < 1"
  by (simp_all add: unit_roundoff_def)

lemma rounds_nonneg:
  assumes "rounds fl" and "fl x = Some y" and "0 \<le> x"
  shows "(1 - unit_roundoff) * x \<le> y" and "y \<le> (1 + unit_roundoff) * x"
proof -
  from assms(1,2) have "\<bar>y - x\<bar> \<le> unit_roundoff * \<bar>x\<bar>" by (simp add: rounds_def)
  with assms(3) have "\<bar>y - x\<bar> \<le> unit_roundoff * x" by simp
  then show "(1 - unit_roundoff) * x \<le> y" and "y \<le> (1 + unit_roundoff) * x"
    by (simp_all add: algebra_simps abs_le_iff)
qed

lemma rounds_pos:
  assumes "rounds fl" and "fl x = Some y" and "0 < x"
  shows "0 < y"
proof -
  have "0 < (1 - unit_roundoff) * x"
    using assms(3) unit_roundoff_bounds by simp
  also have "\<dots> \<le> y" using rounds_nonneg(1)[OF assms(1,2)] assms(3) by simp
  finally show ?thesis .
qed

lemma rounds_zero:
  assumes "rounds fl" and "fl 0 = Some y"
  shows "y = 0"
proof -
  from assms have "\<bar>y - 0\<bar> \<le> unit_roundoff * \<bar>0\<bar>" unfolding rounds_def by blast
  then show ?thesis by simp
qed

lemma rounds_exact: "rounds exact"
  by (simp add: rounds_def exact_def unit_roundoff_def)

lemma round_half_even_error: "\<bar>of_int (round_half_even z) - z\<bar> \<le> 1 / 2"
proof -
  have "of_int \<lfloor>z\<rfloor> \<le> z" "z < of_int \<lfloor>z\<rfloor> + 1" by linarith+
  then show ?thesis
    by (auto simp: round_half_even_def abs_le_iff)
qed

lemma powi_floor_log:
  assumes "0 < a"
  shows "2 powi \<lfloor>log 2 a\<rfloor> \<le> a" and "a < 2 powi (\<lfloor>log 2 a\<rfloor> + 1)"
proof -
  have "of_int \<lfloor>log 2 a\<rfloor> \<le> log 2 a" by linarith
  then have "2 powr of_int \<lfloor>log 2 a\<rfloor> \<le> 2 powr log 2 a" by simp
  then show "2 powi \<lfloor>log 2 a\<rfloor> \<le> a"
    using assms by (simp add: powr_real_of_int')
  define k where "k = \<lfloor>log 2 a\<rfloor> + 1"
  have "log 2 a < of_int k" unfolding k_def by linarith
  then have "2 powr log 2 a < 2 powr of_int k" by simp
  then have "a < 2 powi k"
    using assms by (simp add: powr_real_of_int')
  then show "a < 2 powi (\<lfloor>log 2 a\<rfloor> + 1)" by (simp only: k_def)
qed

lemma rounds_binary64: "rounds binary64"
  unfolding rounds_def
proof (intro allI impI)
  fix x y assume run: "binary64 x = Some y"
  show "\<bar>y - x\<bar> \<le> unit_roundoff * \<bar>x\<bar>"
  proof (cases "x = 0")
    case True
    with run show ?thesis by (simp add: binary64_def)
  next
    case False
    define e where "e = \<lfloor>log 2 \<bar>x\<bar>\<rfloor>"
    define ulp :: real where "ulp = 2 powi (e - 52)"
    have ulp_pos: "0 < ulp" by (simp add: ulp_def)
    from run False have y: "y = of_int (round_half_even (x / ulp)) * ulp"
      by (auto simp: binary64_def e_def ulp_def split: if_splits)
    have "y - x = (of_int (round_half_even (x / ulp)) - x / ulp) * ulp"
      using ulp_pos by (simp add: y field_simps)
    then have "\<bar>y - x\<bar> = \<bar>of_int (round_half_even (x / ulp)) - x / ulp\<bar> * ulp"
      using ulp_pos by (simp add: abs_mult)
    also have "\<dots> \<le> 1 / 2 * ulp"
      using round_half_even_error[of "x / ulp"] ulp_pos by (intro mult_right_mono) simp_all
    also have "1 / 2 * ulp = unit_roundoff * 2 powi e"
    proof -
      have "(2::real) powi (e - 52) = 2 powi e * 2 powi (- 52)"
        by (simp add: power_int_diff power_int_minus field_simps)
      then show ?thesis
        by (simp add: ulp_def unit_roundoff_def power_int_minus field_simps)
    qed
    also have "\<dots> \<le> unit_roundoff * \<bar>x\<bar>"
      using powi_floor_log(1)[of "\<bar>x\<bar>"] False unit_roundoff_bounds
      by (intro mult_left_mono) (simp_all add: e_def)
    finally show ?thesis .
  qed
qed

text \<open>
  Evaluating \<open>binary64\<close>: once the binade of the result is known, the rounded value is
  a rounding of integers.
\<close>

lemma binary64_eval:
  assumes "2 powi e \<le> \<bar>x\<bar>" and "\<bar>x\<bar> < 2 powi (e + 1)" and "- 1022 \<le> e" and "e \<le> 1022"
  shows "binary64 x = Some (of_int (round_half_even (x / 2 powi (e - 52))) * 2 powi (e - 52))"
proof -
  have pos: "0 < \<bar>x\<bar>"
  proof -
    have "(0::real) < 2 powi e" by simp
    with assms(1) show ?thesis by linarith
  qed
  have "of_int e \<le> log 2 \<bar>x\<bar>"
    using assms(1) pos by (simp add: le_log_iff powr_real_of_int')
  moreover have "log 2 \<bar>x\<bar> < of_int e + 1"
  proof -
    have "(2::real) powr (of_int (e + 1)) = 2 powi (e + 1)"
      by (rule powr_real_of_int') simp_all
    with assms(2) have "\<bar>x\<bar> < 2 powr (of_int (e + 1))" by simp
    then have "log 2 \<bar>x\<bar> < of_int (e + 1)" using pos by (simp add: log_less_iff)
    then show ?thesis by simp
  qed
  ultimately have fl: "\<lfloor>log 2 \<bar>x\<bar>\<rfloor> = e" by (simp add: floor_eq_iff)
  have low: "\<not> \<bar>x\<bar> < 2 powi (- 1022)"
  proof -
    have "(2::real) powi (- 1022) \<le> 2 powi e" using assms(3) by (intro power_int_increasing) simp_all
    with assms(1) show ?thesis by linarith
  qed
  have high: "\<not> 2 ^ 1024 - 2 ^ 970 \<le> \<bar>x\<bar>"
  proof -
    have "(2::real) powi (e + 1) \<le> 2 powi 1023" using assms(4) by (intro power_int_increasing) simp_all
    moreover have "(2::real) powi 1023 < 2 ^ 1024 - 2 ^ 970" by simp
    ultimately show ?thesis using assms(2) by linarith
  qed
  from pos have "x \<noteq> 0" by auto
  with low high fl show ?thesis by (simp add: binary64_def)
qed

text \<open>
  The thirteen roundings of the weight computation on the test fixture (bandwidths 100,
  50 and 15, latencies 10, 25 and 45), and the first loop on it.
\<close>

lemma binary64_at_1: "binary64 1 = Some 1"
  using binary64_eval[of "0" "1"]
  by (simp add: round_half_even_def)

lemma binary64_at_2: "binary64 10 = Some 10"
  using binary64_eval[of "3" "10"]
  by (simp add: round_half_even_def)

lemma binary64_at_3: "binary64 (1 / 2) = Some (1 / 2)"
  using binary64_eval[of "- 1" "1 / 2"]
  by (simp add: round_half_even_def)

lemma binary64_at_4: "binary64 4 = Some 4"
  using binary64_eval[of "2" "4"]
  by (simp add: round_half_even_def)

lemma binary64_at_5: "binary64 2 = Some 2"
  using binary64_eval[of "1" "2"]
  by (simp add: round_half_even_def)

lemma binary64_at_6: "binary64 12 = Some 12"
  using binary64_eval[of "3" "12"]
  by (simp add: round_half_even_def)

lemma binary64_at_7: "binary64 (3 / 20) = Some (5404319552844595 / 36028797018963968)"
  using binary64_eval[of "- 3" "3 / 20"]
  by (simp add: round_half_even_def)

lemma binary64_at_8: "binary64 (20 / 9) = Some (2501999792983609 / 1125899906842624)"
  using binary64_eval[of "1" "20 / 9"]
  by (simp add: round_half_even_def)

lemma binary64_at_9: "binary64 (13521606402434447049378159243355 / 40564819207303340847894502572032) = Some (6004799503160661 / 18014398509481984)"
  using binary64_eval[of "- 2" "13521606402434447049378159243355 / 40564819207303340847894502572032"]
  by (simp add: round_half_even_def)

lemma binary64_at_10: "binary64 (222177581616944469 / 18014398509481984) = Some (6943049425529515 / 562949953421312)"
  using binary64_eval[of "3" "222177581616944469 / 18014398509481984"]
  by (simp add: round_half_even_def)

lemma binary64_at_11: "binary64 (1125899906842624 / 1388609885105903) = Some (3651567265435537 / 4503599627370496)"
  using binary64_eval[of "- 1" "1125899906842624 / 1388609885105903"]
  by (simp add: round_half_even_def)

lemma binary64_at_12: "binary64 (1125899906842624 / 6943049425529515) = Some (5842507624696859 / 36028797018963968)"
  using binary64_eval[of "- 3" "1125899906842624 / 6943049425529515"]
  by (simp add: round_half_even_def)

lemma binary64_at_13: "binary64 (6004799503160661 / 222177581616944480) = Some (7790010166262479 / 288230376151711744)"
  using binary64_eval[of "- 6" "6004799503160661 / 222177581616944480"]
  by (simp add: round_half_even_def)

lemmas binary64_fixture =
  binary64_at_1 binary64_at_2 binary64_at_3 binary64_at_4 binary64_at_5 binary64_at_6 binary64_at_7
  binary64_at_8 binary64_at_9 binary64_at_10 binary64_at_11 binary64_at_12 binary64_at_13

lemma weights_loop_fixture:
  "weights_loop binary64 (active_connections sample_state) 0 []
     = Inr (6943049425529515 / 562949953421312,
            [(''eth0'', 10), (''wlan0'', 2), (''ppp0'', 6004799503160661 / 18014398509481984)])"
  by (simp add: sample_state_eq binary64_fixture tenth_def)

lemma tenth_pos: "0 < tenth"
  by (simp add: tenth_def)

text \<open>One step of the first loop on a qualifying interface, and on any other.\<close>

lemma weights_loop_disqualified:
  assumes "\<not> qualifies info"
  shows "weights_loop fl ((iface, info) # rest) t acc
         = weights_loop fl rest t (AList.update iface 0 acc)"
  using assms by (auto simp: qualifies_def)

lemma weights_loop_qualified:
  assumes "qualifies info" and "rounds fl" and "0 \<le> t"
    and "weights_loop fl ((iface, info) # rest) t acc = Inr res"
  shows "\<exists>w t'. 0 < w \<and> (1 - unit_roundoff) * (t + w) \<le> t' \<and> t' \<le> (1 + unit_roundoff) * (t + w) \<and>
           weights_loop fl rest t' (AList.update iface w acc) = Inr res"
proof -
  from assms(1) have q: "ci_active info" "0 < ci_bandwidth info" "ci_latency info < 1000"
    by (simp_all add: qualifies_def)
  from assms(4) q obtain bw inv w t' where
    bw: "fl (ci_bandwidth info / 100) = Some bw" and
    inv: "fl (100 / ci_latency info) = Some inv" and
    w: "fl (bw * max tenth inv) = Some w" and
    t': "fl (t + w) = Some t'" and
    rest: "weights_loop fl rest t' (AList.update iface w acc) = Inr res"
    by (auto split: option.splits if_splits)
  have "0 < bw" using rounds_pos[OF assms(2) bw] q(2) by simp
  moreover have "0 < max tenth inv" using tenth_pos by (simp add: less_max_iff_disj)
  ultimately have "0 < bw * max tenth inv" by (rule mult_pos_pos)
  from rounds_pos[OF assms(2) w this] have wpos: "0 < w" .
  with assms(3) have "0 \<le> t + w" by simp
  from rounds_nonneg[OF assms(2) t' this] wpos rest show ?thesis by blast
qed

lemma update_fresh:
  "k \<notin> fst ` set al \<Longrightarrow> AList.update k v al = al @ [(k, v)]"
  by (induction al) auto

lemma weights_sum_nonneg:
  fixes ws :: "real list"
  assumes "list_all2 (\<lambda>c w. if qualifies (snd c) then 0 < w else w = 0) conns ws"
  shows "0 \<le> sum_list ws"
  using assms
proof (induction conns ws rule: list_all2_induct)
  case Nil
  then show ?case by simp
next
  case (Cons c conns w ws)
  then have "0 \<le> w" by (cases "qualifies (snd c)") simp_all
  with Cons.IH show ?case by simp
qed

lemma weights_loop_bounds:
  assumes "rounds fl" and "distinct (map fst acc @ map fst conns)" and "0 \<le> t"
    and "weights_loop fl conns t acc = Inr (T, W)"
  shows "\<exists>ws. W = acc @ zip (map fst conns) ws \<and>
           list_all2 (\<lambda>c w. if qualifies (snd c) then 0 < w else w = 0) conns ws \<and>
           (1 - unit_roundoff) ^ length conns * (t + sum_list ws) \<le> T \<and>
           T \<le> (1 + unit_roundoff) ^ length conns * (t + sum_list ws)"
  using assms(2-4)
proof (induction conns arbitrary: t acc)
  case Nil
  then show ?case by simp
next
  case (Cons c conns)
  obtain iface info where c: "c = (iface, info)" by (cases c)
  let ?n = "length conns"
  let ?lo = "1 - unit_roundoff" and ?hi = "1 + unit_roundoff"
  have lo: "0 \<le> ?lo" "?lo \<le> 1" and hi: "1 \<le> ?hi"
    using unit_roundoff_bounds by simp_all
  have fresh: "iface \<notin> fst ` set acc" using Cons.prems(1) c by auto
  have upd: "AList.update iface w acc = acc @ [(iface, w)]" for w :: real
    using fresh by (rule update_fresh)
  have dist: "distinct (map fst (acc @ [(iface, w)]) @ map fst conns)" for w :: real
    using Cons.prems(1) c by auto
  show ?case
  proof (cases "qualifies info")
    case False
    from Cons.prems(3) have run: "weights_loop fl conns t (acc @ [(iface, 0)]) = Inr (T, W)"
      unfolding c weights_loop_disqualified[OF False] upd .
    from Cons.IH[OF dist Cons.prems(2) run] obtain ws where
      W: "W = (acc @ [(iface, 0)]) @ zip (map fst conns) ws" and
      rel: "list_all2 (\<lambda>c w. if qualifies (snd c) then 0 < w else w = 0) conns ws" and
      low: "?lo ^ ?n * (t + sum_list ws) \<le> T" and
      upp: "T \<le> ?hi ^ ?n * (t + sum_list ws)"
      by blast
    have X: "0 \<le> t + sum_list ws" using Cons.prems(2) weights_sum_nonneg[OF rel] by simp
    have "?lo ^ Suc ?n * (t + sum_list ws) \<le> ?lo ^ ?n * (t + sum_list ws)"
      using lo X by (simp add: mult_right_mono mult_left_le_one_le)
    with low have low': "?lo ^ length (c # conns) * (t + sum_list (0 # ws)) \<le> T" by simp
    have "?hi ^ ?n * (t + sum_list ws) \<le> ?hi ^ Suc ?n * (t + sum_list ws)"
      using hi X by (simp add: mult_right_mono)
    with upp have upp': "T \<le> ?hi ^ length (c # conns) * (t + sum_list (0 # ws))" by simp
    have rel': "list_all2 (\<lambda>c w. if qualifies (snd c) then 0 < w else w = 0) (c # conns) (0 # ws)"
      using rel False c by simp
    have W': "W = acc @ zip (map fst (c # conns)) (0 # ws)" using W c by simp
    show ?thesis
      by (intro exI[of _ "0 # ws"] conjI) (fact W' rel' low' upp')+
  next
    case True
    from Cons.prems(3) have "weights_loop fl ((iface, info) # conns) t acc = Inr (T, W)"
      by (simp only: c)
    from weights_loop_qualified[OF True assms(1) Cons.prems(2) this] obtain w t' where
      wpos: "0 < w" and
      tlo: "?lo * (t + w) \<le> t'" and thi: "t' \<le> ?hi * (t + w)" and
      run: "weights_loop fl conns t' (acc @ [(iface, w)]) = Inr (T, W)"
      unfolding upd by blast
    have t'0: "0 \<le> t'"
    proof -
      have "0 \<le> ?lo * (t + w)" using lo wpos Cons.prems(2) by simp
      with tlo show ?thesis by simp
    qed
    from Cons.IH[OF dist t'0 run] obtain ws where
      W: "W = (acc @ [(iface, w)]) @ zip (map fst conns) ws" and
      rel: "list_all2 (\<lambda>c w. if qualifies (snd c) then 0 < w else w = 0) conns ws" and
      low: "?lo ^ ?n * (t' + sum_list ws) \<le> T" and
      upp: "T \<le> ?hi ^ ?n * (t' + sum_list ws)"
      by blast
    have S: "0 \<le> sum_list ws" by (rule weights_sum_nonneg[OF rel])
    have "?lo * (t + w + sum_list ws) \<le> ?lo * (t + w) + sum_list ws"
      using S lo by (simp add: algebra_simps mult_left_le_one_le)
    also have "\<dots> \<le> t' + sum_list ws" using tlo by simp
    finally have "?lo ^ ?n * (?lo * (t + w + sum_list ws)) \<le> ?lo ^ ?n * (t' + sum_list ws)"
      using lo by (intro mult_left_mono) simp_all
    with low have low': "?lo ^ length (c # conns) * (t + sum_list (w # ws)) \<le> T"
      by (simp add: algebra_simps)
    have "t' + sum_list ws \<le> ?hi * (t + w) + sum_list ws" using thi by simp
    also have "\<dots> \<le> ?hi * (t + w + sum_list ws)"
      using S unit_roundoff_bounds by (simp add: algebra_simps)
    finally have "?hi ^ ?n * (t' + sum_list ws) \<le> ?hi ^ ?n * (?hi * (t + w + sum_list ws))"
      using hi by (intro mult_left_mono) simp_all
    with upp have upp': "T \<le> ?hi ^ length (c # conns) * (t + sum_list (w # ws))"
      by (simp add: algebra_simps)
    have rel': "list_all2 (\<lambda>c w. if qualifies (snd c) then 0 < w else w = 0) (c # conns) (w # ws)"
      using rel True c wpos by simp
    have W': "W = acc @ zip (map fst (c # conns)) (w # ws)" using W c by simp
    show ?thesis
      by (intro exI[of _ "w # ws"] conjI) (fact W' rel' low' upp')+
  qed
qed

lemma normalise_weights_bounds:
  assumes "rounds fl" and "0 < T" and "length names = length ws"
    and "normalise_weights fl T (zip names ws) = Inr V"
    and "\<forall>w \<in> set ws. 0 \<le> w"
  shows "\<exists>vs. V = zip names vs \<and>
           list_all2 (\<lambda>w v. (w = 0 \<longrightarrow> v = 0) \<and>
                            (1 - unit_roundoff) * (w / T) \<le> v \<and>
                            v \<le> (1 + unit_roundoff) * (w / T)) ws vs"
  using assms(3-5)
proof (induction names ws arbitrary: V rule: list_induct2)
  case Nil
  then show ?case by simp
next
  case (Cons name names w ws)
  from Cons.prems(1) obtain v V' where
    v: "fl (w / T) = Some v" and
    rest: "normalise_weights fl T (zip names ws) = Inr V'" and
    V: "V = (name, v) # V'"
    by (auto split: option.splits sum.splits)
  from Cons.prems(2) have w0: "0 \<le> w" and ws0: "\<forall>w \<in> set ws. 0 \<le> w" by simp_all
  from Cons.IH[OF rest ws0] obtain vs where
    V': "V' = zip names vs" and
    rel: "list_all2 (\<lambda>w v. (w = 0 \<longrightarrow> v = 0) \<and>
                            (1 - unit_roundoff) * (w / T) \<le> v \<and>
                            v \<le> (1 + unit_roundoff) * (w / T)) ws vs"
    by blast
  have q0: "0 \<le> w / T" using w0 assms(2) by simp
  have b: "(1 - unit_roundoff) * (w / T) \<le> v" "v \<le> (1 + unit_roundoff) * (w / T)"
    using rounds_nonneg[OF assms(1) v q0] by simp_all
  have z: "w = 0 \<longrightarrow> v = 0"
  proof
    assume "w = 0"
    with v have "fl 0 = Some v" by simp
    then show "v = 0" by (rule rounds_zero[OF assms(1)])
  qed
  have "list_all2 (\<lambda>w v. (w = 0 \<longrightarrow> v = 0) \<and>
                            (1 - unit_roundoff) * (w / T) \<le> v \<and>
                            v \<le> (1 + unit_roundoff) * (w / T)) (w # ws) (v # vs)"
    using rel b z by simp
  moreover have "V = zip (name # names) (v # vs)" using V V' by simp
  ultimately show ?case by blast
qed

lemma normalised_sum_bounds:
  fixes ws vs :: "real list"
  assumes "list_all2 (\<lambda>w v. (w = 0 \<longrightarrow> v = 0) \<and> lo * (w / T) \<le> v \<and> v \<le> hi * (w / T)) ws vs"
  shows "lo * (sum_list ws / T) \<le> sum_list vs \<and> sum_list vs \<le> hi * (sum_list ws / T)"
  using assms
proof (induction ws vs rule: list_all2_induct)
  case Nil
  then show ?case by simp
next
  case (Cons w ws v vs)
  then show ?case by (simp add: add_divide_distrib distrib_left)
qed

text \<open>
  The rounding budget: up to a thousand million operations, each with a relative error
  of at most the unit roundoff, stay within one part in a million.
\<close>

lemma roundoff_budget:
  assumes "n \<le> 1000000000"
  shows "1 - 1 / 1000000 \<le> (1 - unit_roundoff) / (1 + unit_roundoff) ^ n"
    and "(1 + unit_roundoff) / (1 - unit_roundoff) ^ n \<le> 1 + 1 / 1000000"
proof -
  define u where "u = unit_roundoff"
  have u: "u = 1 / 9007199254740992" by (simp add: u_def unit_roundoff_def)
  have u0: "0 < u" "u < 1" using u by simp_all
  have "real n \<le> 1000000000" using assms by simp
  then have "real n * u \<le> 1000000000 * u" using u0 by (intro mult_right_mono) simp_all
  also have "1000000000 * u \<le> 1 / 9000000" unfolding u by simp
  finally have nu: "real n * u \<le> 1 / 9000000" .
  have ub: "u \<le> 1 / 9000000" unfolding u by simp
  have bern: "1 - real n * u \<le> (1 - u) ^ n"
    using Bernoulli_inequality[of "- u" n] u0 by simp
  have lo_pos: "0 < (1 - u) ^ n" using u0 by simp
  have hi_pos: "0 < (1 + u) ^ n" using u0 by simp
  have "(1 + u) ^ n * (1 - u) ^ n = ((1 + u) * (1 - u)) ^ n" by (simp add: power_mult_distrib)
  also have "\<dots> \<le> 1"
  proof (rule power_le_one)
    show "0 \<le> (1 + u) * (1 - u)" using u0 by simp
    have "(1 + u) * (1 - u) = 1 - u * u" by (simp add: algebra_simps)
    then show "(1 + u) * (1 - u) \<le> 1" using u0 by simp
  qed
  finally have prod: "(1 + u) ^ n * (1 - u) ^ n \<le> 1" .
  have inv: "(1 - u) ^ n \<le> 1 / (1 + u) ^ n"
    using prod hi_pos by (simp add: pos_le_divide_eq mult.commute)
  have "1 - 1 / 1000000 \<le> (1 - u) * (1 - real n * u)"
  proof -
    have "(1 - u) * (1 - real n * u) = 1 - u - real n * u + u * (real n * u)"
      by (simp add: algebra_simps)
    moreover have "0 \<le> u * (real n * u)" using u0 by simp
    ultimately have "1 - u - real n * u \<le> (1 - u) * (1 - real n * u)" by simp
    moreover have "1 - 1 / 1000000 \<le> 1 - u - real n * u" using nu ub by linarith
    ultimately show ?thesis by linarith
  qed
  also have "\<dots> \<le> (1 - u) * (1 - u) ^ n"
    using bern u0 by (intro mult_left_mono) simp_all
  also have "\<dots> \<le> (1 - u) * (1 / (1 + u) ^ n)"
    using inv u0 by (intro mult_left_mono) simp_all
  finally show "1 - 1 / 1000000 \<le> (1 - unit_roundoff) / (1 + unit_roundoff) ^ n"
    by (simp add: u_def)
  have den: "0 < 1 - real n * u" using nu by linarith
  have "(1 + u) / (1 - u) ^ n \<le> (1 + u) / (1 - real n * u)"
    using bern den u0 by (intro divide_left_mono) simp_all
  also have "\<dots> \<le> 1 + 1 / 1000000"
  proof -
    have "1 + u \<le> (1 + 1 / 1000000) * (1 - real n * u)"
    proof -
      define x where "x = real n * u"
      have x: "0 \<le> x" "x \<le> 1 / 9000000" using nu u0 by (simp_all add: x_def)
      have "(1 + 1 / 1000000) * (1 - x) = (1 + 1 / 1000000) * 1 - (1 + 1 / 1000000) * x"
        by (rule right_diff_distrib)
      moreover have "(1 + 1 / 1000000) * x \<le> 2 * x"
        using x(1) by (intro mult_right_mono) simp_all
      ultimately have "1 + 1 / 1000000 - 2 * x \<le> (1 + 1 / 1000000) * (1 - x)" by simp
      moreover have "1 + u \<le> 1 + 1 / 1000000 - 2 * x" using x(2) ub by linarith
      ultimately show ?thesis unfolding x_def by linarith
    qed
    with den show ?thesis by (simp add: pos_divide_le_eq)
  qed
  finally show "(1 + unit_roundoff) / (1 - unit_roundoff) ^ n \<le> 1 + 1 / 1000000"
    by (simp add: u_def)
qed

lemma weights_all_zero:
  fixes ws :: "real list"
  assumes "list_all2 (\<lambda>c w. if qualifies (snd c) then 0 < w else w = 0) conns ws"
    and "\<forall>c \<in> set conns. \<not> qualifies (snd c)"
  shows "ws = map (\<lambda>c. 0) conns"
  using assms by (induction conns ws rule: list_all2_induct) simp_all

lemma weights_some_pos:
  fixes ws :: "real list"
  assumes "list_all2 (\<lambda>c w. if qualifies (snd c) then 0 < w else w = 0) conns ws"
    and "\<exists>c \<in> set conns. qualifies (snd c)"
  shows "0 < sum_list ws"
  using assms
proof (induction conns ws rule: list_all2_induct)
  case Nil
  then show ?case by simp
next
  case (Cons c conns w ws)
  have rest: "0 \<le> sum_list ws" by (rule weights_sum_nonneg[OF Cons.hyps(2)])
  show ?case
  proof (cases "qualifies (snd c)")
    case True
    with Cons.hyps(1) have "0 < w" by simp
    with rest show ?thesis by simp
  next
    case False
    with Cons.hyps(1) have "w = 0" by simp
    moreover from False Cons.prems have "\<exists>c \<in> set conns. qualifies (snd c)" by simp
    ultimately show ?thesis using Cons.IH by simp
  qed
qed

text \<open>The weight map after a completed computation, entry by entry.\<close>

lemma calculate_weights_entries:
  assumes "rounds fl" and "distinct (map fst (active_connections s))"
    and "calculate_weights fl s = Inr s'"
  shows "\<exists>ws vs T.
           s' = s\<lparr>connection_weights := zip (map fst (active_connections s)) vs\<rparr> \<and>
           list_all2 (\<lambda>c w. if qualifies (snd c) then 0 < w else w = 0) (active_connections s) ws \<and>
           (1 - unit_roundoff) ^ length (active_connections s) * sum_list ws \<le> T \<and>
           T \<le> (1 + unit_roundoff) ^ length (active_connections s) * sum_list ws \<and>
           (if 0 < T
            then list_all2 (\<lambda>w v. (w = 0 \<longrightarrow> v = 0) \<and>
                                   (1 - unit_roundoff) * (w / T) \<le> v \<and>
                                   v \<le> (1 + unit_roundoff) * (w / T)) ws vs
            else vs = ws)"
proof -
  let ?conns = "active_connections s"
  from assms(3) obtain T W where
    loop: "weights_loop fl ?conns 0 [] = Inr (T, W)"
    by (auto simp: calculate_weights_def split: sum.splits)
  have d: "distinct (map fst ([] :: (string \<times> real) list) @ map fst ?conns)"
    using assms(2) by simp
  from weights_loop_bounds[OF assms(1) d _ loop] obtain ws where
    W: "W = zip (map fst ?conns) ws" and
    rel: "list_all2 (\<lambda>c w. if qualifies (snd c) then 0 < w else w = 0) ?conns ws" and
    low: "(1 - unit_roundoff) ^ length ?conns * sum_list ws \<le> T" and
    upp: "T \<le> (1 + unit_roundoff) ^ length ?conns * sum_list ws"
    by auto
  have len: "length (map fst ?conns) = length ws"
    using rel by (simp add: list_all2_lengthD)
  have nonneg: "\<forall>w \<in> set ws. 0 \<le> w"
  proof
    fix w assume "w \<in> set ws"
    then obtain k where k: "k < length ws" "ws ! k = w" by (auto simp: in_set_conv_nth)
    with rel have "if qualifies (snd (?conns ! k)) then 0 < w else w = 0"
      by (auto simp: list_all2_conv_all_nth)
    then show "0 \<le> w" by (cases "qualifies (snd (?conns ! k))") simp_all
  qed
  show ?thesis
  proof (cases "0 < T")
    case True
    with assms(3) loop obtain V where
      norm: "normalise_weights fl T W = Inr V" and s': "s' = s\<lparr>connection_weights := V\<rparr>"
      by (auto simp: calculate_weights_def split: sum.splits)
    from normalise_weights_bounds[OF assms(1) True len norm[unfolded W] nonneg] obtain vs where
      V: "V = zip (map fst ?conns) vs" and
      rel2: "list_all2 (\<lambda>w v. (w = 0 \<longrightarrow> v = 0) \<and>
                                   (1 - unit_roundoff) * (w / T) \<le> v \<and>
                                   v \<le> (1 + unit_roundoff) * (w / T)) ws vs"
      by blast
    show ?thesis
      using s' V rel low upp rel2 True
      by (intro exI[of _ ws] exI[of _ vs] exI[of _ T]) simp
  next
    case False
    with assms(3) loop have s': "s' = s\<lparr>connection_weights := W\<rparr>"
      by (auto simp: calculate_weights_def split: sum.splits)
    show ?thesis
      using s' W rel low upp False
      by (intro exI[of _ ws] exI[of _ ws] exI[of _ T]) simp
  qed
qed

text \<open>
  Claim C1, as the code has it. \<open>fl\<close> is the rounding of the machine's arithmetic.
  For a weight computation that completes, with no floating-point result outside the
  range of the normal doubles, on distinct interface names (they are the keys of a
  dictionary) and at most a thousand million of them: only the weight map changes; it
  has one entry per interface; a disqualified interface has weight 0; if some
  interface qualifies the weights sum to 1 within one part in a million; if none does
  the map holds a 0 for every interface, so it is empty only when there is no
  interface at all.
\<close>

theorem calculate_weights_normalised:
  assumes "rounds fl"
    and "distinct (map fst (active_connections s))"
    and "length (active_connections s) \<le> 1000000000"
    and "calculate_weights fl s = Inr s'"
  shows "s' = s\<lparr>connection_weights := connection_weights s'\<rparr>
         \<and> map fst (connection_weights s') = map fst (active_connections s)
         \<and> (\<forall>(iface, info) \<in> set (active_connections s).
               \<not> qualifies info \<longrightarrow> map_of (connection_weights s') iface = Some 0)
         \<and> ((\<exists>(iface, info) \<in> set (active_connections s). qualifies info) \<longrightarrow>
              \<bar>sum_list (map snd (connection_weights s')) - 1\<bar> \<le> 1 / 1000000)
         \<and> ((\<forall>(iface, info) \<in> set (active_connections s). \<not> qualifies info) \<longrightarrow>
              connection_weights s' = map (\<lambda>(iface, info). (iface, 0)) (active_connections s))"
proof -
  let ?conns = "active_connections s"
  let ?n = "length ?conns"
  let ?lo = "1 - unit_roundoff" and ?hi = "1 + unit_roundoff"
  from calculate_weights_entries[OF assms(1,2,4)] obtain ws vs T where
    s': "s' = s\<lparr>connection_weights := zip (map fst ?conns) vs\<rparr>" and
    rel: "list_all2 (\<lambda>c w. if qualifies (snd c) then 0 < w else w = 0) ?conns ws" and
    low: "?lo ^ ?n * sum_list ws \<le> T" and
    upp: "T \<le> ?hi ^ ?n * sum_list ws" and
    norm: "if 0 < T
            then list_all2 (\<lambda>w v. (w = 0 \<longrightarrow> v = 0) \<and>
                                   ?lo * (w / T) \<le> v \<and> v \<le> ?hi * (w / T)) ws vs
            else vs = ws"
    by blast
  have lws: "length ws = ?n" using rel by (simp add: list_all2_lengthD)
  have lvs: "length vs = ?n"
    using norm lws by (cases "0 < T") (auto dest: list_all2_lengthD)
  have W: "connection_weights s' = zip (map fst ?conns) vs" by (simp add: s')
  have keys: "map fst (connection_weights s') = map fst ?conns"
    by (simp add: W lvs)
  have same: "s' = s\<lparr>connection_weights := connection_weights s'\<rparr>" by (simp add: s')
  have zero_entry: "vs ! k = 0" if "k < ?n" "\<not> qualifies (snd (?conns ! k))" for k
  proof -
    from rel that have w0: "ws ! k = 0" by (auto simp: list_all2_conv_all_nth)
    show ?thesis
    proof (cases "0 < T")
      case True
      with norm that(1) lws have "ws ! k = 0 \<longrightarrow> vs ! k = 0"
        by (auto simp: list_all2_conv_all_nth)
      with w0 show ?thesis by simp
    next
      case False
      with norm w0 show ?thesis by simp
    qed
  qed
  have disq: "\<forall>(iface, info) \<in> set ?conns.
               \<not> qualifies info \<longrightarrow> map_of (connection_weights s') iface = Some 0"
  proof (intro ballI, clarify)
    fix iface info assume mem: "(iface, info) \<in> set ?conns" and nq: "\<not> qualifies info"
    from mem obtain k where k: "k < ?n" "?conns ! k = (iface, info)"
      by (auto simp: in_set_conv_nth)
    with nq have "vs ! k = 0" using zero_entry[of k] by simp
    with k lvs have "(iface, 0) \<in> set (zip (map fst ?conns) vs)"
      by (auto simp: in_set_zip intro!: exI[of _ k])
    moreover have "distinct (map fst (zip (map fst ?conns) vs))"
      using assms(2) lvs by simp
    ultimately show "map_of (connection_weights s') iface = Some 0"
      unfolding W by (rule map_of_is_SomeI[rotated])
  qed
  have sum1: "\<bar>sum_list (map snd (connection_weights s')) - 1\<bar> \<le> 1 / 1000000"
    if "\<exists>(iface, info) \<in> set ?conns. qualifies info"
  proof -
    from that have "\<exists>c \<in> set ?conns. qualifies (snd c)" by force
    from weights_some_pos[OF rel this] have S: "0 < sum_list ws" .
    have lo_pos: "0 < ?lo ^ ?n" and hi_pos: "0 < ?hi ^ ?n"
      using unit_roundoff_bounds by simp_all
    have "0 < ?lo ^ ?n * sum_list ws" using lo_pos S by (rule mult_pos_pos)
    with low have T: "0 < T" by simp
    with norm have "list_all2 (\<lambda>w v. (w = 0 \<longrightarrow> v = 0) \<and>
                                   ?lo * (w / T) \<le> v \<and> v \<le> ?hi * (w / T)) ws vs"
      by simp
    from normalised_sum_bounds[OF this] have
      vlo: "?lo * (sum_list ws / T) \<le> sum_list vs" and
      vhi: "sum_list vs \<le> ?hi * (sum_list ws / T)"
      by simp_all
    have r1: "1 / ?hi ^ ?n \<le> sum_list ws / T"
      using upp T hi_pos by (simp add: field_simps)
    have r2: "sum_list ws / T \<le> 1 / ?lo ^ ?n"
      using low T lo_pos by (simp add: field_simps)
    have lo0: "0 \<le> ?lo" and hi0: "0 \<le> ?hi" using unit_roundoff_bounds by simp_all
    have "?lo / ?hi ^ ?n = ?lo * (1 / ?hi ^ ?n)" by simp
    also have "\<dots> \<le> ?lo * (sum_list ws / T)" using r1 lo0 by (rule mult_left_mono)
    also have "\<dots> \<le> sum_list vs" by (rule vlo)
    finally have below: "?lo / ?hi ^ ?n \<le> sum_list vs" .
    have "sum_list vs \<le> ?hi * (sum_list ws / T)" by (rule vhi)
    also have "\<dots> \<le> ?hi * (1 / ?lo ^ ?n)" using r2 hi0 by (rule mult_left_mono)
    also have "\<dots> = ?hi / ?lo ^ ?n" by simp
    finally have above: "sum_list vs \<le> ?hi / ?lo ^ ?n" .
    from roundoff_budget[OF assms(3)] below above
    have "1 - 1 / 1000000 \<le> sum_list vs" "sum_list vs \<le> 1 + 1 / 1000000"
      by linarith+
    then have "\<bar>sum_list vs - 1\<bar> \<le> 1 / 1000000" by linarith
    moreover have "map snd (connection_weights s') = vs" by (simp add: W lvs)
    ultimately show ?thesis by (simp only:)
  qed
  have none: "connection_weights s' = map (\<lambda>(iface, info). (iface, 0)) ?conns"
    if "\<forall>(iface, info) \<in> set ?conns. \<not> qualifies info"
  proof -
    from that have nq: "\<forall>c \<in> set ?conns. \<not> qualifies (snd c)" by force
    from weights_all_zero[OF rel nq] have ws: "ws = map (\<lambda>c. 0) ?conns" .
    then have "sum_list ws = 0" by (simp add: sum_list_0)
    with upp have "\<not> 0 < T" by simp
    with norm ws have "vs = map (\<lambda>c. 0) ?conns" by simp
    then show ?thesis
      unfolding W by (simp add: zip_map_map[where f=fst and g="\<lambda>c. 0", simplified] zip_same_conv_map split_def)
  qed
  from same keys disq sum1 none show ?thesis by blast
qed

lemma unreachable_state_eq:
  "unreachable_state =
     \<lparr>aggregation_mode = ''failover'',
      active_connections =
        [(''eth0'', \<lparr>ci_bandwidth = 100, ci_latency = 1000, ci_data_cap = 0,
                     ci_active = True, ci_packet_count = 0, ci_bytes_sent = 0\<rparr>)],
      connection_weights = [(''eth0'', 0)],
      packet_queues = [(''eth0'', \<lparr>maxlen = 1000, items = []\<rparr>)],
      performance_history = [(''eth0'', [])],
      running = True, max_queue_size = 1000, rebalance_interval = 30,
      performance_window = 10\<rparr>"
  by (simp add: unreachable_state_def initialize_def unreachable_node_def LinkAggregator_def
      init_connection_def dict_get_def calculate_weights_def new_deque_def
      optimize_aggregation_def update_connection_status_def update_connection_def
      adjust_aggregation_mode_def exact_def)

text \<open>
  The claim as stated fails: after initialisation and an optimisation tick on a node
  whose only interface is unreachable, no interface qualifies, yet the weight map is
  not empty; it holds the entry 0 for that interface.
\<close>

theorem weight_map_not_empty_counterexample:
  "active_connections unreachable_state =
     [(''eth0'', \<lparr>ci_bandwidth = 100, ci_latency = 1000, ci_data_cap = 0,
                  ci_active = True, ci_packet_count = 0, ci_bytes_sent = 0\<rparr>)]
   \<and> \<not> qualifies \<lparr>ci_bandwidth = 100, ci_latency = 1000, ci_data_cap = 0,
                    ci_active = True, ci_packet_count = 0, ci_bytes_sent = 0\<rparr>
   \<and> connection_weights unreachable_state = [(''eth0'', 0)]
   \<and> connection_weights unreachable_state \<noteq> []"
  by (simp add: unreachable_state_eq qualifies_def)

text \<open>
  The weight theorem at the test fixture in binary64 arithmetic. The stored weights are
  the doubles the code computes there; their exact sum is \<open>1 - 25 / 2 ^ 58\<close>, not 1,
  and within the tolerance. In exact arithmetic the weights would be 30/37, 6/37 and
  1/37.
\<close>

theorem calculate_weights_normalised_witness:
  "rounds binary64
   \<and> distinct (map fst (active_connections sample_state))
   \<and> length (active_connections sample_state) \<le> 1000000000
   \<and> calculate_weights binary64 sample_state
       = Inr (sample_state\<lparr>connection_weights :=
                [(''eth0'', 3651567265435537 / 4503599627370496),
                 (''wlan0'', 5842507624696859 / 36028797018963968),
                 (''ppp0'', 7790010166262479 / 288230376151711744)]\<rparr>)
   \<and> sum_list (map snd
         [(''eth0'', 3651567265435537 / 4503599627370496),
          (''wlan0'', 5842507624696859 / 36028797018963968),
          (''ppp0'', 7790010166262479 / 288230376151711744 :: real)]) = 1 - 25 / 2 ^ 58
   \<and> \<bar>sum_list (map snd
         [(''eth0'', 3651567265435537 / 4503599627370496),
          (''wlan0'', 5842507624696859 / 36028797018963968),
          (''ppp0'', 7790010166262479 / 288230376151711744 :: real)]) - 1\<bar> \<le> 1 / 1000000"
proof -
  let ?ws = "[(''eth0'', 3651567265435537 / 4503599627370496),
              (''wlan0'', 5842507624696859 / 36028797018963968),
              (''ppp0'', 7790010166262479 / 288230376151711744 :: real)]"
  have d: "distinct (map fst (active_connections sample_state))"
    by (simp add: sample_state_eq)
  have l: "length (active_connections sample_state) \<le> 1000000000"
    by (simp add: sample_state_eq)
  have run: "calculate_weights binary64 sample_state
               = Inr (sample_state\<lparr>connection_weights := ?ws\<rparr>)"
    by (simp add: calculate_weights_def weights_loop_fixture binary64_fixture)
  have q: "\<exists>(iface, info) \<in> set (active_connections sample_state). qualifies info"
    by (simp add: sample_state_eq qualifies_def)
  have s: "sum_list (map snd ?ws) = 1 - 25 / 2 ^ 58"
    by simp
  from calculate_weights_normalised[OF rounds_binary64 d l run] q
  have "\<bar>sum_list (map snd (connection_weights (sample_state\<lparr>connection_weights := ?ws\<rparr>))) - 1\<bar>
          \<le> 1 / 1000000"
    by blast
  then have t: "\<bar>sum_list (map snd ?ws) - 1\<bar> \<le> 1 / 1000000"
    by simp
  from rounds_binary64 d l run s t show ?thesis
    by (intro conjI)
qed

lemma calculate_weights_fixture_exact:
  "calculate_weights exact sample_state = Inr sample_state"
  by (simp add: sample_state_eq calculate_weights_def exact_def tenth_def)

text \<open>
  The hypotheses of the weight theorem. \<open>initialize\<close> and the optimisation tick keep
  the interface names distinct. The computation completes when no result leaves the
  range of the doubles and no qualifying interface has latency 0; a missing latency
  entry (read as 0) on an interface with bandwidth makes it raise.
\<close>

lemma init_connection_distinct:
  "distinct (map fst (active_connections s)) \<Longrightarrow>
     distinct (map fst (active_connections (init_connection node i s)))"
  by (simp add: init_connection_def distinct_update)

lemma fold_init_distinct:
  "distinct (map fst (active_connections s)) \<Longrightarrow>
     distinct (map fst (active_connections (fold (init_connection node) is s)))"
  by (induction "is" arbitrary: s) (simp_all add: init_connection_distinct)

lemma calculate_weights_connections:
  "calculate_weights fl s = Inr s' \<Longrightarrow> active_connections s' = active_connections s"
  by (auto simp: calculate_weights_def split: sum.splits if_splits)

lemma initialize_distinct:
  assumes "initialize fl node LinkAggregator = Inr s'"
  shows "distinct (map fst (active_connections s'))"
proof -
  from assms obtain s1 where
    w: "calculate_weights fl (fold (init_connection node) (connections node) LinkAggregator) = Inr s1"
    and s': "s' = s1\<lparr>running := True\<rparr>"
    by (auto simp: initialize_def split: sum.splits)
  have "distinct (map fst (active_connections LinkAggregator))"
    by (simp add: LinkAggregator_def)
  then have "distinct (map fst (active_connections
                (fold (init_connection node) (connections node) LinkAggregator)))"
    by (rule fold_init_distinct)
  with calculate_weights_connections[OF w] s' show ?thesis by simp
qed

lemma update_connection_distinct:
  "distinct (map fst (active_connections s)) \<Longrightarrow>
     distinct (map fst (active_connections (update_connection node i s)))"
  by (simp add: update_connection_def distinct_update split: option.splits)

lemma update_connection_status_distinct:
  "distinct (map fst (active_connections s)) \<Longrightarrow>
     distinct (map fst (active_connections (update_connection_status node s)))"
proof -
  have "distinct (map fst (active_connections (fold (update_connection node) is s)))"
    if "distinct (map fst (active_connections s))" for "is" s
    using that by (induction "is" arbitrary: s) (simp_all add: update_connection_distinct)
  then show "distinct (map fst (active_connections s)) \<Longrightarrow>
     distinct (map fst (active_connections (update_connection_status node s)))"
    by (simp add: update_connection_status_def)
qed

lemma weights_loop_completes:
  assumes "\<forall>x. fl x \<noteq> None"
    and "\<forall>(iface, info) \<in> set conns. qualifies info \<longrightarrow> ci_latency info \<noteq> 0"
  shows "\<exists>res. weights_loop fl conns t acc = Inr res"
  using assms(2)
proof (induction conns arbitrary: t acc)
  case Nil
  then show ?case by simp
next
  case (Cons c conns)
  obtain iface info where c: "c = (iface, info)" by (cases c)
  from Cons.prems have rest: "\<forall>(iface, info) \<in> set conns. qualifies info \<longrightarrow> ci_latency info \<noteq> 0"
    by simp
  show ?case
  proof (cases "qualifies info")
    case False
    show ?thesis
      unfolding c weights_loop_disqualified[OF False] by (rule Cons.IH[OF rest])
  next
    case True
    with Cons.prems c have lat: "ci_latency info \<noteq> 0" by simp
    from True have q: "ci_active info" "0 < ci_bandwidth info" "ci_latency info < 1000"
      by (simp_all add: qualifies_def)
    from assms(1) obtain bw where bw: "fl (ci_bandwidth info / 100) = Some bw" by auto
    from assms(1) obtain inv where inv: "fl (100 / ci_latency info) = Some inv" by auto
    from assms(1) obtain w where w: "fl (bw * max tenth inv) = Some w" by auto
    from assms(1) obtain t' where t': "fl (t + w) = Some t'" by auto
    from Cons.IH[OF rest, of t' "AList.update iface w acc"] q lat bw inv w t'
    show ?thesis unfolding c by simp
  qed
qed

lemma normalise_weights_completes:
  assumes "\<forall>x. fl x \<noteq> None"
  shows "\<exists>V. normalise_weights fl T W = Inr V"
proof (induction W)
  case Nil
  then show ?case by simp
next
  case (Cons p W)
  obtain iface w where p: "p = (iface, w)" by (cases p)
  from assms obtain v where "fl (w / T) = Some v" by auto
  with Cons p show ?case by auto
qed

lemma calculate_weights_completes:
  assumes "\<forall>x. fl x \<noteq> None"
    and "\<forall>(iface, info) \<in> set (active_connections s). qualifies info \<longrightarrow> ci_latency info \<noteq> 0"
  shows "\<exists>s'. calculate_weights fl s = Inr s'"
proof -
  from weights_loop_completes[OF assms, of 0 "[]"] obtain T W where
    "weights_loop fl (active_connections s) 0 [] = Inr (T, W)" by auto
  moreover from normalise_weights_completes[OF assms(1), of T W] obtain V where
    "normalise_weights fl T W = Inr V" by auto
  ultimately show ?thesis by (simp add: calculate_weights_def)
qed

lemma initialize_zero_latency_raises:
  "initialize exact (unreachable_node\<lparr>latency := []\<rparr>) LinkAggregator = Inl ZeroDivisionError"
  by (simp add: initialize_def unreachable_node_def LinkAggregator_def init_connection_def
      dict_get_def calculate_weights_def exact_def)

subsection \<open>Selection\<close>

lemma first_active_sound:
  "first_active conns = Some iface \<Longrightarrow> \<exists>info. (iface, info) \<in> set conns \<and> ci_active info"
  by (induction conns) (auto split: if_splits)

lemma pick_cumulative_sound:
  "pick_cumulative r c ws = Some iface \<Longrightarrow> iface \<in> fst ` set ws"
proof (induction r c ws rule: pick_cumulative.induct)
  case (1 r cumulative)
  then show ?case by simp
next
  case (2 r cumulative iface' weight rest)
  then show ?case by (cases "r \<le> cumulative + weight") auto
qed

lemma best_by_mem: "best_by better best xs \<in> set (best # xs)"
  by (induction xs arbitrary: best) auto

lemma weighted_random_selection_sound:
  assumes "weighted_random_selection r s = Some iface"
  shows "\<exists>info. (iface, info) \<in> set (active_connections s) \<and> ci_active info \<and>
               0 < dict_get (connection_weights s) iface 0"
proof -
  let ?ok = "\<lambda>(iface, info). ci_active info \<and> dict_get (connection_weights s) iface 0 > 0"
  let ?act = "map fst (filter ?ok (active_connections s))"
  have "iface \<in> set ?act"
  proof (cases ?act)
    case Nil
    with assms show ?thesis by (simp add: weighted_random_selection_def)
  next
    case (Cons first others)
    let ?ws = "map (\<lambda>iface. dict_get (connection_weights s) iface 0) ?act"
    let ?T = "sum_list ?ws"
    show ?thesis
    proof (cases "?T = 0")
      case True
      with assms Cons have "iface = first"
        by (simp add: weighted_random_selection_def Let_def)
      with Cons show ?thesis by simp
    next
      case False
      let ?z = "zip ?act (map (\<lambda>w. w / ?T) ?ws)"
      show ?thesis
      proof (cases "pick_cumulative r 0 ?z")
        case None
        with assms Cons False have "iface = last (first # others)"
          by (simp add: weighted_random_selection_def Let_def)
        then have "iface \<in> set (first # others)"
          using last_in_set[of "first # others"] by simp
        with Cons show ?thesis by simp
      next
        case (Some picked)
        with assms Cons False have "iface = picked"
          by (simp add: weighted_random_selection_def Let_def)
        moreover from pick_cumulative_sound[OF Some] have "picked \<in> set ?act"
          by (auto dest: set_zip_leftD)
        ultimately show ?thesis by simp
      qed
    qed
  qed
  then show ?thesis by auto
qed

lemma adaptive_selection_sound:
  assumes "adaptive_selection packet_size r s = Some iface"
  shows "\<exists>info. (iface, info) \<in> set (active_connections s) \<and> ci_active info \<and>
               (packet_size = 0 \<longrightarrow> 0 < dict_get (connection_weights s) iface 0)"
proof (cases "packet_size = 0")
  case True
  with assms have "weighted_random_selection r s = Some iface"
    by (simp add: adaptive_selection_def)
  from weighted_random_selection_sound[OF this] show ?thesis by blast
next
  case False
  let ?act = "filter (\<lambda>(iface, info). ci_active info) (active_connections s)"
  show ?thesis
  proof (cases ?act)
    case Nil
    with assms False show ?thesis by (simp add: adaptive_selection_def)
  next
    case (Cons first others)
    with assms False obtain better where "iface = fst (best_by better first others)"
      by (auto simp: adaptive_selection_def split: if_splits)
    moreover have "best_by better first others \<in> set ?act"
      using best_by_mem[of better first others] Cons by simp
    ultimately obtain info where "(iface, info) \<in> set ?act"
      by (metis prod.collapse)
    with False show ?thesis by auto
  qed
qed

text \<open>
  Claim C5, as the code has it. Whatever the mode, a selected interface has a
  connection entry that is marked active. In \<open>load_balance\<close> mode, and in \<open>adaptive\<close>
  mode for packet size 0, its weight is positive. In \<open>failover\<close> mode and in
  \<open>adaptive\<close> mode for a non-zero packet size the weight map is not consulted.
\<close>

theorem select_connection_sound:
  assumes "select_connection packet_size r s = Some iface"
  shows "(\<exists>info. (iface, info) \<in> set (active_connections s) \<and> ci_active info)
         \<and> (aggregation_mode s = ''load_balance'' \<or>
             aggregation_mode s = ''adaptive'' \<and> packet_size = 0 \<longrightarrow>
               0 < dict_get (connection_weights s) iface 0)"
proof -
  consider (f) "aggregation_mode s = ''failover''" "first_active (active_connections s) = Some iface"
    | (l) "aggregation_mode s = ''load_balance''" "weighted_random_selection r s = Some iface"
    | (a) "aggregation_mode s = ''adaptive''" "adaptive_selection packet_size r s = Some iface"
    using assms by (auto simp: select_connection_def split: if_splits)
  then show ?thesis
  proof cases
    case f
    from first_active_sound[OF f(2)] f(1) show ?thesis by auto
  next
    case l
    from weighted_random_selection_sound[OF l(2)] show ?thesis by blast
  next
    case a
    from adaptive_selection_sound[OF a(2)] a(1) show ?thesis by auto
  qed
qed

text \<open>
  The claim as stated fails. After initialisation and one optimisation tick on a node
  whose only interface is unreachable, the mode is \<open>failover\<close> and selection returns
  that interface although its weight is 0; the same interface is returned in
  \<open>adaptive\<close> mode for a packet of 2000 bytes.
\<close>

theorem select_zero_weight_counterexample:
  "aggregation_mode unreachable_state = ''failover''
   \<and> connection_weights unreachable_state = [(''eth0'', 0)]
   \<and> select_connection 0 (1 / 2) unreachable_state = Some ''eth0''
   \<and> select_connection 2000 (1 / 2) (unreachable_state\<lparr>aggregation_mode := ''adaptive''\<rparr>)
       = Some ''eth0''"
  by (simp add: unreachable_state_eq select_connection_def adaptive_selection_def)

text \<open>The selection theorem at the test fixture: \<open>load_balance\<close> with draw 0.95.\<close>

theorem select_connection_sound_witness:
  "select_connection 0 (95 / 100) sample_state = Some ''wlan0''
   \<and> (\<exists>info. (''wlan0'', info) \<in> set (active_connections sample_state) \<and> ci_active info)
   \<and> aggregation_mode sample_state = ''load_balance''
   \<and> 0 < dict_get (connection_weights sample_state) ''wlan0'' 0"
proof -
  have sel: "select_connection 0 (95 / 100) sample_state = Some ''wlan0''"
    by (simp add: sample_state_eq select_connection_def weighted_random_selection_def
        dict_get_def)
  have m: "aggregation_mode sample_state = ''load_balance''"
    by (simp add: sample_state_eq)
  from select_connection_sound[OF sel] sel m show ?thesis by simp
qed

subsection \<open>Peer table\<close>











subsection \<open>Failover events\<close>

lemma select_new_primary_keeps [simp]:
  "failed_interfaces (select_new_primary s) = failed_interfaces s"
  "failover_events (select_new_primary s) = failover_events s"
  "last_check (select_new_primary s) = last_check s"
  "monitoring_interval (select_new_primary s) = monitoring_interval s"
  by (simp_all add: select_new_primary_def split: list.splits)

lemma owed_events_same [simp]: "owed_events b b = []"
  by (simp add: owed_events_def)

lemma owed_events_Nil: "owed_events was is = [] \<longleftrightarrow> (was = is)"
  by (auto simp: owed_events_def)

lemma recover_interface_effect:
  "\<exists>evs. failover_events (recover_interface now i s) = failover_events s @ evs \<and>
         (\<forall>e \<in> set evs. ev_interface e = i) \<and>
         map event_type evs =
           owed_events (i \<in> failed_interfaces s) (i \<in> failed_interfaces (recover_interface now i s)) \<and>
         (\<forall>j. j \<noteq> i \<longrightarrow>
            (j \<in> failed_interfaces (recover_interface now i s)) = (j \<in> failed_interfaces s)) \<and>
         last_check (recover_interface now i s) = last_check s \<and>
         monitoring_interval (recover_interface now i s) = monitoring_interval s"
  by (cases "i \<in> failed_interfaces s") (simp_all add: recover_interface_def owed_events_def)

lemma handle_connection_success_effect:
  "\<exists>evs. failover_events (handle_connection_success now i s) = failover_events s @ evs \<and>
         (\<forall>e \<in> set evs. ev_interface e = i) \<and>
         map event_type evs =
           owed_events (i \<in> failed_interfaces s)
             (i \<in> failed_interfaces (handle_connection_success now i s)) \<and>
         (\<forall>j. j \<noteq> i \<longrightarrow>
            (j \<in> failed_interfaces (handle_connection_success now i s)) = (j \<in> failed_interfaces s)) \<and>
         last_check (handle_connection_success now i s) = last_check s \<and>
         monitoring_interval (handle_connection_success now i s) = monitoring_interval s"
proof -
  let ?s2 = "s\<lparr>failure_counts := AList.update i 0 (failure_counts s),
               success_counts := AList.update i (dict_get (success_counts s) i 0 + 1) (success_counts s)\<rparr>"
  show ?thesis
  proof (cases "i \<in> failed_interfaces s \<and> recovery_threshold s \<le> dict_get (success_counts s) i 0 + 1")
    case True
    then have eq: "handle_connection_success now i s = recover_interface now i ?s2"
      by (simp add: handle_connection_success_def Let_def)
    from recover_interface_effect[of now i ?s2] show ?thesis
      unfolding eq by simp
  next
    case False
    then have "handle_connection_success now i s = ?s2"
      by (auto simp: handle_connection_success_def Let_def)
    then show ?thesis by simp
  qed
qed

lemma failover_interface_effect:
  assumes "map_of (failure_counts s) i = Some c"
  shows "\<exists>s' evs. failover_interface now i s = Inr s' \<and>
           failover_events s' = failover_events s @ evs \<and>
           (\<forall>e \<in> set evs. ev_interface e = i) \<and>
           map event_type evs = owed_events (i \<in> failed_interfaces s) (i \<in> failed_interfaces s') \<and>
           (\<forall>j. j \<noteq> i \<longrightarrow> (j \<in> failed_interfaces s') = (j \<in> failed_interfaces s)) \<and>
           last_check s' = last_check s \<and> monitoring_interval s' = monitoring_interval s"
proof (cases "i \<in> failed_interfaces s")
  case True
  then show ?thesis by (simp add: failover_interface_def)
next
  case False
  let ?e = "\<lparr>event_type = ''connection_lost'', ev_interface = i, ev_timestamp = now,
             details = LostDetails c (state s)\<rparr>"
  let ?s2 = "s\<lparr>failed_interfaces := insert i (failed_interfaces s),
               failover_events := failover_events s @ [?e]\<rparr>"
  let ?s' = "if primary_interface ?s2 = Some i then select_new_primary ?s2 else ?s2"
  have run: "failover_interface now i s = Inr ?s'"
    using False assms by (simp add: failover_interface_def Let_def)
  have "failover_events ?s' = failover_events s @ [?e]" by simp
  moreover have "failed_interfaces ?s' = insert i (failed_interfaces s)" by simp
  moreover have "last_check ?s' = last_check s" by simp
  moreover have "monitoring_interval ?s' = monitoring_interval s" by simp
  ultimately show ?thesis
    using False run
    by (intro exI[of _ ?s'] exI[of _ "[?e]"]) (simp add: owed_events_def)
qed

lemma handle_connection_failure_effect:
  "\<exists>s' evs. handle_connection_failure now i s = Inr s' \<and>
           failover_events s' = failover_events s @ evs \<and>
           (\<forall>e \<in> set evs. ev_interface e = i) \<and>
           map event_type evs = owed_events (i \<in> failed_interfaces s) (i \<in> failed_interfaces s') \<and>
           (\<forall>j. j \<noteq> i \<longrightarrow> (j \<in> failed_interfaces s') = (j \<in> failed_interfaces s)) \<and>
           last_check s' = last_check s \<and> monitoring_interval s' = monitoring_interval s"
proof -
  let ?n = "dict_get (failure_counts s) i 0 + 1"
  let ?s2 = "s\<lparr>success_counts := AList.update i 0 (success_counts s),
               failure_counts := AList.update i ?n (failure_counts s)\<rparr>"
  show ?thesis
  proof (cases "failover_threshold s \<le> ?n")
    case True
    then have eq: "handle_connection_failure now i s = failover_interface now i ?s2"
      by (simp add: handle_connection_failure_def Let_def)
    have "map_of (failure_counts ?s2) i = Some ?n" by (simp add: update_conv')
    from failover_interface_effect[OF this, of now] show ?thesis
      unfolding eq by simp
  next
    case False
    then have "handle_connection_failure now i s = Inr ?s2"
      by (simp add: handle_connection_failure_def Let_def)
    then show ?thesis by simp
  qed
qed

lemma check_interface_effect:
  assumes "0 < monitoring_interval s"
  shows "\<exists>s' evs. check_interface t et (i, probes) s = Inr s' \<and>
           monitoring_interval s' = monitoring_interval s \<and>
           failover_events s' = failover_events s @ evs \<and>
           (\<forall>e \<in> set evs. ev_interface e = i) \<and>
           map event_type evs = owed_events (i \<in> failed_interfaces s) (i \<in> failed_interfaces s') \<and>
           (\<forall>j. j \<noteq> i \<longrightarrow> (j \<in> failed_interfaces s') = (j \<in> failed_interfaces s)) \<and>
           (\<forall>j. j \<noteq> i \<longrightarrow> map_of (last_check s') j = map_of (last_check s) j) \<and>
           (evs \<noteq> [] \<longrightarrow> map_of (last_check s) i \<noteq> Some t) \<and>
           (evs \<noteq> [] \<longrightarrow> map_of (last_check s') i = Some t) \<and>
           (map_of (last_check s) i = Some t \<longrightarrow> map_of (last_check s') i = Some t)"
proof -
  let ?s1 = "case map_of (last_check s) i of
               None \<Rightarrow> s\<lparr>last_check := AList.update i 0 (last_check s)\<rparr>
             | Some t' \<Rightarrow> s"
  have s1_fields:
    "failover_events ?s1 = failover_events s" "failed_interfaces ?s1 = failed_interfaces s"
    "monitoring_interval ?s1 = monitoring_interval s"
    by (simp_all split: option.splits)
  have s1_other: "map_of (last_check ?s1) j = map_of (last_check s) j" if "j \<noteq> i" for j
    using that by (simp add: update_conv' split: option.splits)
  have s1_seen: "map_of (last_check ?s1) i = Some t" if "map_of (last_check s) i = Some t"
    using that by simp
  show ?thesis
  proof (cases "monitoring_interval ?s1 \<le> t - dict_get (last_check ?s1) i 0")
    case False
    then have run: "check_interface t et (i, probes) s = Inr ?s1"
      by (simp add: check_interface_def Let_def)
    show ?thesis
      using run s1_fields s1_other s1_seen
      by (intro exI[of _ ?s1] exI[of _ "[]"]) simp
  next
    case True
    have unseen: "map_of (last_check s) i \<noteq> Some t"
    proof
      assume seen: "map_of (last_check s) i = Some t"
      then have "dict_get (last_check ?s1) i 0 = t" by (simp add: dict_get_def)
      with True s1_fields(3) assms show False by simp
    qed
    define s2 where "s2 = ?s1\<lparr>last_check := AList.update i t (last_check ?s1)\<rparr>"
    define now where "now = et (length (failover_events s2))"
    have s2_ev: "failover_events s2 = failover_events s"
      and s2_failed: "failed_interfaces s2 = failed_interfaces s"
      and s2_mi: "monitoring_interval s2 = monitoring_interval s"
      using s1_fields by (simp_all add: s2_def)
    have s2_other: "map_of (last_check s2) j = map_of (last_check s) j" if "j \<noteq> i" for j
      using that s1_other[OF that] by (simp add: s2_def update_conv')
    have s2_seen: "map_of (last_check s2) i = Some t"
      by (simp add: s2_def update_conv')
    have wrap: ?thesis
      if run: "check_interface t et (i, probes) s = Inr s'"
        and ev: "failover_events s' = failover_events s2 @ evs"
        and own: "\<forall>e \<in> set evs. ev_interface e = i"
        and owed: "map event_type evs =
                 owed_events (i \<in> failed_interfaces s2) (i \<in> failed_interfaces s')"
        and others: "\<forall>j. j \<noteq> i \<longrightarrow> (j \<in> failed_interfaces s') = (j \<in> failed_interfaces s2)"
        and lc: "last_check s' = last_check s2"
        and mi: "monitoring_interval s' = monitoring_interval s2"
      for s' evs
    proof (intro exI[of _ s'] exI[of _ evs] conjI)
      show "check_interface t et (i, probes) s = Inr s'" by (rule run)
      show "monitoring_interval s' = monitoring_interval s" by (simp add: mi s2_mi)
      show "failover_events s' = failover_events s @ evs" by (simp add: ev s2_ev)
      show "\<forall>e \<in> set evs. ev_interface e = i" by (rule own)
      show "map event_type evs =
              owed_events (i \<in> failed_interfaces s) (i \<in> failed_interfaces s')"
        using owed by (simp add: s2_failed)
      show "\<forall>j. j \<noteq> i \<longrightarrow> (j \<in> failed_interfaces s') = (j \<in> failed_interfaces s)"
        using others by (simp add: s2_failed)
      show "\<forall>j. j \<noteq> i \<longrightarrow> map_of (last_check s') j = map_of (last_check s) j"
        by (simp add: lc s2_other)
      show "evs \<noteq> [] \<longrightarrow> map_of (last_check s) i \<noteq> Some t" using unseen by simp
      show "evs \<noteq> [] \<longrightarrow> map_of (last_check s') i = Some t" by (simp add: lc s2_seen)
      show "map_of (last_check s) i = Some t \<longrightarrow> map_of (last_check s') i = Some t"
        by (simp add: lc s2_seen)
    qed
    show ?thesis
    proof (cases "check_connection_health probes")
      case healthy: True
      have run: "check_interface t et (i, probes) s = Inr (handle_connection_success now i s2)"
        using True healthy by (simp add: check_interface_def Let_def s2_def now_def)
      from handle_connection_success_effect[of now i s2] obtain evs where
        "failover_events (handle_connection_success now i s2) = failover_events s2 @ evs"
        "\<forall>e \<in> set evs. ev_interface e = i"
        "map event_type evs =
           owed_events (i \<in> failed_interfaces s2)
             (i \<in> failed_interfaces (handle_connection_success now i s2))"
        "\<forall>j. j \<noteq> i \<longrightarrow>
           (j \<in> failed_interfaces (handle_connection_success now i s2)) = (j \<in> failed_interfaces s2)"
        "last_check (handle_connection_success now i s2) = last_check s2"
        "monitoring_interval (handle_connection_success now i s2) = monitoring_interval s2"
        by blast
      with run show ?thesis by (rule wrap)
    next
      case unhealthy: False
      from handle_connection_failure_effect[of now i s2] obtain s' evs where
        hf: "handle_connection_failure now i s2 = Inr s'" and
        eff: "failover_events s' = failover_events s2 @ evs"
        "\<forall>e \<in> set evs. ev_interface e = i"
        "map event_type evs =
                 owed_events (i \<in> failed_interfaces s2) (i \<in> failed_interfaces s')"
        "\<forall>j. j \<noteq> i \<longrightarrow> (j \<in> failed_interfaces s') = (j \<in> failed_interfaces s2)"
        "last_check s' = last_check s2"
        "monitoring_interval s' = monitoring_interval s2"
        by blast
      have run: "check_interface t et (i, probes) s = Inr s'"
        using True unhealthy hf by (simp add: check_interface_def Let_def s2_def now_def)
      from run eff show ?thesis by (rule wrap)
    qed
  qed
qed

lemma events_for_append [simp]:
  "events_for j (xs @ ys) = events_for j xs @ events_for j ys"
  by (simp add: events_for_def)

lemma events_for_own:
  "\<forall>e \<in> set evs. ev_interface e = i \<Longrightarrow> events_for i evs = map event_type evs"
  by (induction evs) (simp_all add: events_for_def)

lemma events_for_other:
  "\<forall>e \<in> set evs. ev_interface e \<noteq> j \<Longrightarrow> events_for j evs = []"
  by (induction evs) (simp_all add: events_for_def)

lemma events_for_Nil_all:
  "(\<forall>j. events_for j evs = []) \<longleftrightarrow> evs = []"
proof
  assume all: "\<forall>j. events_for j evs = []"
  show "evs = []"
  proof (cases evs)
    case Nil
    then show ?thesis .
  next
    case (Cons e rest)
    with all[rule_format, of "ev_interface e"] show ?thesis by (simp add: events_for_def)
  qed
next
  assume "evs = []"
  then show "\<forall>j. events_for j evs = []" by (simp add: events_for_def)
qed

lemma check_interfaces_effect:
  assumes "0 < monitoring_interval s"
  shows "\<exists>s' evs. check_interfaces t et conns s = Inr s' \<and>
           monitoring_interval s' = monitoring_interval s \<and>
           failover_events s' = failover_events s @ evs \<and>
           (\<forall>e \<in> set evs. map_of (last_check s) (ev_interface e) \<noteq> Some t) \<and>
           (\<forall>j. events_for j evs =
                  owed_events (j \<in> failed_interfaces s) (j \<in> failed_interfaces s'))"
  using assms
proof (induction conns arbitrary: s)
  case Nil
  show ?case by (intro exI[of _ s] exI[of _ "[]"]) (simp add: events_for_def)
next
  case (Cons conn conns)
  obtain i probes where conn: "conn = (i, probes)" by (cases conn)
  from check_interface_effect[OF Cons.prems, of t et i probes] obtain s1 evs1 where
    run1: "check_interface t et (i, probes) s = Inr s1" and
    mi1: "monitoring_interval s1 = monitoring_interval s" and
    ev1: "failover_events s1 = failover_events s @ evs1" and
    own1: "\<forall>e \<in> set evs1. ev_interface e = i" and
    owed1: "map event_type evs1 =
              owed_events (i \<in> failed_interfaces s) (i \<in> failed_interfaces s1)" and
    others1: "\<forall>j. j \<noteq> i \<longrightarrow> (j \<in> failed_interfaces s1) = (j \<in> failed_interfaces s)" and
    lc1: "\<forall>j. j \<noteq> i \<longrightarrow> map_of (last_check s1) j = map_of (last_check s) j" and
    unseen1: "evs1 \<noteq> [] \<longrightarrow> map_of (last_check s) i \<noteq> Some t" and
    seen1: "evs1 \<noteq> [] \<longrightarrow> map_of (last_check s1) i = Some t" and
    stay1: "map_of (last_check s) i = Some t \<longrightarrow> map_of (last_check s1) i = Some t"
    by blast
  have pos1: "0 < monitoring_interval s1" using Cons.prems mi1 by simp
  from Cons.IH[OF pos1] obtain s' evs2 where
    run2: "check_interfaces t et conns s1 = Inr s'" and
    mi2: "monitoring_interval s' = monitoring_interval s1" and
    ev2: "failover_events s' = failover_events s1 @ evs2" and
    unseen2: "\<forall>e \<in> set evs2. map_of (last_check s1) (ev_interface e) \<noteq> Some t" and
    owed2: "\<forall>j. events_for j evs2 =
                  owed_events (j \<in> failed_interfaces s1) (j \<in> failed_interfaces s')"
    by blast
  have run: "check_interfaces t et (conn # conns) s = Inr s'"
    using run1 run2 conn by simp
  have unseen: "map_of (last_check s) (ev_interface e) \<noteq> Some t" if "e \<in> set (evs1 @ evs2)" for e
  proof (cases "e \<in> set evs1")
    case True
    then have "evs1 \<noteq> []" by auto
    with unseen1 own1 True show ?thesis by simp
  next
    case False
    with that have e2: "e \<in> set evs2" by simp
    with unseen2 have n: "map_of (last_check s1) (ev_interface e) \<noteq> Some t" by simp
    show ?thesis
    proof (cases "ev_interface e = i")
      case True
      with n stay1 show ?thesis by auto
    next
      case False
      with n lc1 show ?thesis by simp
    qed
  qed
  have owed: "events_for j (evs1 @ evs2) =
                owed_events (j \<in> failed_interfaces s) (j \<in> failed_interfaces s')" for j
  proof (cases "j = i")
    case False
    with own1 have "events_for j evs1 = []" by (intro events_for_other) auto
    moreover from others1 False have "(j \<in> failed_interfaces s1) = (j \<in> failed_interfaces s)"
      by simp
    ultimately show ?thesis using owed2 by simp
  next
    case True
    have first: "events_for i evs1 =
                   owed_events (i \<in> failed_interfaces s) (i \<in> failed_interfaces s1)"
      using events_for_own[OF own1] owed1 by simp
    show ?thesis
    proof (cases "evs1 = []")
      case Nil: True
      with owed1 have "(i \<in> failed_interfaces s) = (i \<in> failed_interfaces s1)"
        by (simp add: owed_events_Nil[symmetric])
      with Nil owed2 True show ?thesis by (simp add: events_for_def)
    next
      case False
      with seen1 have "map_of (last_check s1) i = Some t" by simp
      with unseen2 have "\<forall>e \<in> set evs2. ev_interface e \<noteq> i" by auto
      then have none: "events_for i evs2 = []" by (rule events_for_other)
      with owed2 have "owed_events (i \<in> failed_interfaces s1) (i \<in> failed_interfaces s') = []"
        by simp
      then have "(i \<in> failed_interfaces s') = (i \<in> failed_interfaces s1)"
        by (simp add: owed_events_Nil)
      with first none True show ?thesis by simp
    qed
  qed
  show ?case
  proof (intro exI[of _ s'] exI[of _ "evs1 @ evs2"] conjI allI ballI)
    show "check_interfaces t et (conn # conns) s = Inr s'" by (rule run)
    show "monitoring_interval s' = monitoring_interval s" by (simp add: mi1 mi2)
    show "failover_events s' = failover_events s @ evs1 @ evs2" by (simp add: ev1 ev2)
    show "map_of (last_check s) (ev_interface e) \<noteq> Some t" if "e \<in> set (evs1 @ evs2)" for e
      using that by (rule unseen)
    show "events_for j (evs1 @ evs2) =
            owed_events (j \<in> failed_interfaces s) (j \<in> failed_interfaces s')" for j
      by (rule owed)
  qed
qed

lemma update_system_state_keeps [simp]:
  "failed_interfaces (update_system_state n s) = failed_interfaces s"
  "failover_events (update_system_state n s) = failover_events s"
  "monitoring_interval (update_system_state n s) = monitoring_interval s"
  by (simp_all add: update_system_state_def Let_def)

lemma owed_events_all_Nil:
  "(\<forall>j. owed_events (j \<in> A) (j \<in> B) = []) \<longleftrightarrow> B = A"
  by (auto simp: owed_events_Nil)

text \<open>
  The monitoring interval is set by the constructor, to 10 seconds, and no method
  assigns it: it is positive in every state the manager reaches.
\<close>

lemma FailoverManager_interval: "0 < monitoring_interval FailoverManager"
  by (simp add: FailoverManager_def)

lemma check_failover_conditions_interval:
  assumes "0 < monitoring_interval s"
  shows "monitoring_interval (check_failover_conditions t et conns s) = monitoring_interval s"
proof -
  from check_interfaces_effect[OF assms, of t et conns] obtain s1 where
    "check_interfaces t et conns s = Inr s1" "monitoring_interval s1 = monitoring_interval s"
    by blast
  then show ?thesis by (simp add: check_failover_conditions_def)
qed

lemma manual_failover_interval:
  "monitoring_interval (snd (manual_failover now a b s)) = monitoring_interval s"
  by (simp add: manual_failover_def Let_def)

lemma setters_interval:
  "monitoring_interval (set_primary_interface i s) = monitoring_interval s"
  "monitoring_interval (set_backup_interfaces is s) = monitoring_interval s"
  "monitoring_interval (clear_failure_history s) = monitoring_interval s"
  by (simp_all add: set_primary_interface_def set_backup_interfaces_def
      clear_failure_history_def)

text \<open>
  Claim C6. On a monitoring tick the events appended to the log are, for every
  interface, exactly the events owed to it: one \<open>connection_lost\<close> if it entered the
  failed set on this tick, one \<open>connection_restored\<close> if it left it, none otherwise;
  so the log grows on a tick if and only if the failed set changed on that tick.
\<close>

theorem failover_events_match_transitions:
  assumes "0 < monitoring_interval s"
    and "s' = check_failover_conditions t et conns s"
  shows "\<exists>evs. failover_events s' = failover_events s @ evs \<and>
            (\<forall>j. events_for j evs =
                   owed_events (j \<in> failed_interfaces s) (j \<in> failed_interfaces s')) \<and>
            ((evs = []) = (failed_interfaces s' = failed_interfaces s))"
proof -
  from check_interfaces_effect[OF assms(1), of t et conns] obtain s1 evs where
    run: "check_interfaces t et conns s = Inr s1" and
    ev: "failover_events s1 = failover_events s @ evs" and
    owed: "\<forall>j. events_for j evs =
                  owed_events (j \<in> failed_interfaces s) (j \<in> failed_interfaces s1)"
    by blast
  have s': "s' = update_system_state (length conns) s1"
    using run by (simp add: assms(2) check_failover_conditions_def)
  have ev': "failover_events s' = failover_events s @ evs" by (simp add: s' ev)
  have owed': "\<forall>j. events_for j evs =
                  owed_events (j \<in> failed_interfaces s) (j \<in> failed_interfaces s')"
    using owed by (simp add: s')
  have "(evs = []) = (\<forall>j. events_for j evs = [])" by (simp add: events_for_Nil_all)
  also have "\<dots> = (\<forall>j. owed_events (j \<in> failed_interfaces s) (j \<in> failed_interfaces s') = [])"
    using owed' by simp
  also have "\<dots> = (failed_interfaces s' = failed_interfaces s)"
    by (rule owed_events_all_Nil)
  finally have iff: "(evs = []) = (failed_interfaces s' = failed_interfaces s)" .
  from ev' owed' iff show ?thesis by blast
qed

text \<open>
  A manual failover is an operator's action and not a tick. It puts the source
  interface into the failed set, takes the target out of it and appends one
  \<open>manual_failover\<close> event, whatever the failed set was.
\<close>

lemma manual_failover_effect:
  "manual_failover now a b s =
     (True,
      s\<lparr>failed_interfaces := insert a (failed_interfaces s) - {b},
        primary_interface := Some b,
        failover_events :=
          failover_events s @
          [\<lparr>event_type = ''manual_failover'', ev_interface = a, ev_timestamp = now,
            details = ManualDetails b True\<rparr>]\<rparr>)"
proof -
  have "(if b \<in> insert a (failed_interfaces s)
         then insert a (failed_interfaces s) - {b} else insert a (failed_interfaces s))
        = insert a (failed_interfaces s) - {b}"
    by auto
  then show ?thesis
    by (cases "b \<in> insert a (failed_interfaces s)") (simp_all add: manual_failover_def Let_def)
qed

lemmas failover_eval =
  check_failover_conditions_def check_interface_def check_connection_health_def
  handle_connection_success_def handle_connection_failure_def failover_interface_def
  recover_interface_def select_new_primary_def update_system_state_def dict_get_def
  sample_failover_def FailoverManager_def tick_clock_def Let_def

lemma two_failures_eq:
  "two_failures =
     \<lparr>state = NORMAL, primary_interface = Some ''eth0'', backup_interfaces = [''wlan0''],
      failed_interfaces = {}, failover_threshold = 3, recovery_threshold = 2,
      monitoring_interval = 10,
      failure_counts = [(''eth0'', 2), (''wlan0'', 0)],
      success_counts = [(''eth0'', 0), (''wlan0'', 2)],
      last_check = [(''eth0'', 20), (''wlan0'', 20)], failover_events = []\<rparr>"
  by (simp add: two_failures_def failover_eval)

lemma third_failure_eq:
  "third_failure =
     \<lparr>state = MONITORING, primary_interface = Some ''wlan0'', backup_interfaces = [''wlan0''],
      failed_interfaces = {''eth0''}, failover_threshold = 3, recovery_threshold = 2,
      monitoring_interval = 10,
      failure_counts = [(''eth0'', 3), (''wlan0'', 0)],
      success_counts = [(''eth0'', 0), (''wlan0'', 3)],
      last_check = [(''eth0'', 30), (''wlan0'', 30)],
      failover_events =
        [\<lparr>event_type = ''connection_lost'', ev_interface = ''eth0'', ev_timestamp = 5,
          details = LostDetails 3 NORMAL\<rparr>]\<rparr>"
  by (simp add: third_failure_def two_failures_eq failover_eval)

text \<open>
  Two manual failovers from \<open>eth0\<close> to \<open>wlan0\<close> in a row: the first moves \<open>eth0\<close>
  into the failed set, the second leaves the set as it is, and each logs its event.
\<close>

lemma manual_failover_twice:
  "failed_interfaces sample_failover = {}
   \<and> failed_interfaces manual_once = {''eth0''}
   \<and> map event_type (failover_events manual_once) = [''manual_failover'']
   \<and> failed_interfaces manual_twice = failed_interfaces manual_once
   \<and> map event_type (failover_events manual_twice) = [''manual_failover'', ''manual_failover'']"
  by (simp add: manual_twice_def manual_once_def manual_failover_def sample_failover_def
      FailoverManager_def Let_def)

text \<open>
  The event theorem at scenario 3: after two failing ticks the third one moves \<open>eth0\<close>
  into the failed set and appends the one \<open>connection_lost\<close> event.
\<close>

theorem failover_events_match_transitions_witness:
  "0 < monitoring_interval two_failures
   \<and> failed_interfaces two_failures = {}
   \<and> failover_events two_failures = []
   \<and> failed_interfaces third_failure = {''eth0''}
   \<and> events_for ''eth0'' (failover_events third_failure) = [''connection_lost'']
   \<and> events_for ''wlan0'' (failover_events third_failure) = []"
proof -
  have pos: "0 < monitoring_interval two_failures" by (simp add: two_failures_eq)
  from failover_events_match_transitions[OF pos third_failure_def]
  obtain evs where
    ev: "failover_events third_failure = failover_events two_failures @ evs" and
    owed: "\<forall>j. events_for j evs =
             owed_events (j \<in> failed_interfaces two_failures) (j \<in> failed_interfaces third_failure)"
    by blast
  have f2: "failed_interfaces two_failures = {}" and e2: "failover_events two_failures = []"
    by (simp_all add: two_failures_eq)
  have f3: "failed_interfaces third_failure = {''eth0''}" by (simp add: third_failure_eq)
  from ev e2 have "failover_events third_failure = evs" by simp
  with owed f2 f3 pos e2 show ?thesis by (simp add: owed_events_def)
qed

end
